theory Spec2Isabelle
  imports Main "HOL-Library.Word"
begin

section \<open>Data model\<close>

text \<open>
  The server keeps every connection as a Go struct behind a pointer (\<open>*Client\<close>) that
  is shared between the hub's map, the matchmaker's channel and the read loop that owns
  the connection. The model therefore has an explicit store: an address is a natural
  number and \<open>heap\<close> maps each address to the data fields of the client stored there
  (\<open>ID\<close>, \<open>Name\<close>, \<open>RoomID\<close>, \<open>InQueue\<close>, \<open>IsAlive\<close>, \<open>Score\<close>).

  \<open>Score\<close> is declared \<open>int\<close>; on the 64-bit build it is a 64-bit
  two's-complement integer whose arithmetic wraps around. It is modelled as a 64-bit
  word, read as signed with \<open>sint\<close>. The seed is an \<open>int64\<close>.
\<close>

type_synonym addr = nat
type_synonym goint = "64 word"

record Client =
  ID :: string
  Name :: string
  RoomID :: string
  InQueue :: bool
  IsAlive :: bool
  Score :: goint

text \<open>The three payloads the server sends (\<open>GameStartPayload\<close>,
  \<open>OpponentUpdatePayload\<close>, \<open>GameOverPayload\<close>), with the fields in source order.\<close>

datatype Payload =
    GameStartPayload (pRoomID: string) (pSeed: goint) (pMyID: string) (pMyName: string)
      (pOpponentID: string) (pOpponentName: string)
  | OpponentUpdatePayload (pScore: goint) (pIsAlive: bool)
  | GameOverPayload (pWinnerID: string) (pReason: string)

text \<open>
  The field \<open>Send\<close> of a client is a channel made by \<open>NewClient\<close> with a buffer
  of 256 messages and never reassigned. A channel is its buffered messages, oldest
  first, and whether it has been closed; the channel of the client at address \<open>c\<close>
  is \<open>chans s c\<close>. A buffered message is the marshalled envelope, kept as its message
  type and payload.
\<close>

record Chan =
  buf :: "(string \<times> Payload) list"
  closed :: bool

text \<open>
  An inbound envelope \<open>{type, payload}\<close>. The raw payload is decoded by
  \<open>json.Unmarshal\<close> inside each case of the handler; the model carries the outcome of
  the two decodings the handler performs: \<open>ScoreField\<close> is the result of decoding into
  \<open>ScorePayload\<close> and \<open>NameField\<close> of decoding into \<open>JoinQueuePayload\<close>, each
  \<open>None\<close> when \<open>json.Unmarshal\<close> returns an error.
\<close>

record Message =
  Type :: string
  ScoreField :: "goint option"
  NameField :: "string option"

text \<open>
  The server state: the store of client objects and of their \<open>Send\<close> channels,
  \<open>Hub.clients\<close> (identifier to pointer), the matchmaker's channel \<open>queue\<close> and
  its local variable \<open>waiting\<close>, the messages the write pumps have written to their
  connections (\<open>written\<close>, with the connection) and the rows inserted into the table
  \<open>leaderboard\<close> (\<open>saved\<close>: player id, player name, score), both in order.
\<close>

record Server =
  heap :: "addr \<Rightarrow> Client"
  chans :: "addr \<Rightarrow> Chan"
  clients :: "string \<Rightarrow> addr option"
  queue :: "addr list"
  waiting :: "addr option"
  written :: "(addr \<times> string \<times> Payload) list"
  saved :: "(string \<times> string \<times> goint) list"

section \<open>Panics\<close>

text \<open>
  A send on a closed channel, the close of a closed channel and the dereference of a
  nil pointer panic. A function that can panic returns an \<open>outcome\<close>: \<open>Done\<close> with
  the state it leaves, or \<open>Panic\<close> with the state at the panic (what has been written
  before stays written). \<open>andThen\<close> is sequencing: nothing runs after a panic.
\<close>

datatype panic = SendOnClosedChannel | CloseOfClosedChannel | NilPointerDereference

datatype outcome = Done Server | Panic panic Server

fun state_of :: "outcome \<Rightarrow> Server" where
  "state_of (Done s) = s"
| "state_of (Panic p s) = s"

fun panic_of :: "outcome \<Rightarrow> panic option" where
  "panic_of (Done s) = None"
| "panic_of (Panic p s) = Some p"

fun andThen :: "outcome \<Rightarrow> (Server \<Rightarrow> outcome) \<Rightarrow> outcome" where
  "andThen (Done s) f = f s"
| "andThen (Panic p s) f = Panic p s"

section \<open>Client\<close>

text \<open>
  \<open>Client.SendJSON\<close> marshals the payload and the envelope (for the three payload
  structs \<open>json.Marshal\<close> does not fail) and then selects between the send on
  \<open>c.Send\<close> and a default case. On a closed channel the send case is chosen and
  panics; on an open channel the message is buffered if the buffer of 256 has room and
  otherwise the default case drops it (and logs the drop). The callers ignore the
  returned error, which is nil on both paths.
\<close>

definition SendJSON :: "addr \<Rightarrow> string \<Rightarrow> Payload \<Rightarrow> Server \<Rightarrow> outcome" where
  "SendJSON c msgType payload s =
     (if closed (chans s c) then Panic SendOnClosedChannel s
      else if length (buf (chans s c)) < 256 then
        Done (s\<lparr>chans := (chans s)(c := (chans s c)\<lparr>buf := buf (chans s c) @ [(msgType, payload)]\<rparr>)\<rparr>)
      else Done s)"

text \<open>
  One iteration of the loop of \<open>Client.WritePump\<close>: receive the oldest buffered
  message and write it to the connection. With nothing buffered the receive blocks (or,
  on a closed channel, the pump writes a close message and returns): nothing changes.
  A failed write ends the pump, after which no iteration happens for this client.
\<close>

definition WritePump_iter :: "addr \<Rightarrow> Server \<Rightarrow> Server" where
  "WritePump_iter c s =
     (case buf (chans s c) of
        [] \<Rightarrow> s
      | message # rest \<Rightarrow>
          s\<lparr>chans := (chans s)(c := (chans s c)\<lparr>buf := rest\<rparr>),
            written := written s @ [(c, message)]\<rparr>)"

section \<open>Leaderboard\<close>

text \<open>
  \<open>db.SaveScore\<close> executes one \<open>INSERT INTO leaderboard\<close> through the connection
  pool and returns its error. Whether the database executes the statement is decided
  outside the server (the table made by \<open>InitSchema\<close> has \<open>score INTEGER\<close> and
  \<open>player_name VARCHAR(100)\<close>, so it refuses, for instance, a score beyond 32 bits;
  the connection may be lost): \<open>ok\<close> says whether \<open>pool.Exec\<close> returned no error.
  On success the row is in the table; on an error nothing is inserted, and the callers
  only log the error.
\<close>

definition SaveScore :: "bool \<Rightarrow> string \<Rightarrow> string \<Rightarrow> goint \<Rightarrow> Server \<Rightarrow> Server" where
  "SaveScore ok playerID playerName score s =
     (if ok then s\<lparr>saved := saved s @ [(playerID, playerName, score)]\<rparr> else s)"

text \<open>Assignment through a client pointer.\<close>

definition upd :: "addr \<Rightarrow> (Client \<Rightarrow> Client) \<Rightarrow> Server \<Rightarrow> Server" where
  "upd c f s = s\<lparr>heap := (heap s)(c := f (heap s c))\<rparr>"

section \<open>Hub\<close>

text \<open>
  \<open>Hub.Run\<close>: a registration stores the pointer under the client's own identifier;
  an unregistration, if an entry is stored under that identifier, deletes the entry and
  closes the client's \<open>Send\<close> channel (closing a closed channel panics).
\<close>

definition Register :: "addr \<Rightarrow> Server \<Rightarrow> Server" where
  "Register c s = s\<lparr>clients := (clients s)(ID (heap s c) \<mapsto> c)\<rparr>"

definition Unregister :: "addr \<Rightarrow> Server \<Rightarrow> outcome" where
  "Unregister c s =
     (case clients s (ID (heap s c)) of
        None \<Rightarrow> Done s
      | Some _ \<Rightarrow>
          let s1 = s\<lparr>clients := (clients s)(ID (heap s c) := None)\<rparr>
          in if closed (chans s1 c) then Panic CloseOfClosedChannel s1
             else Done (s1\<lparr>chans := (chans s1)(c := (chans s1 c)\<lparr>closed := True\<rparr>)\<rparr>))"

text \<open>
  \<open>Hub.GetClientsInRoom\<close> ranges over the map \<open>h.clients\<close>. Go leaves the order
  of a range over a map unspecified and it may differ from one range to the next, so
  the order in which the keys are visited is an explicit argument \<open>ks\<close>: any list
  that holds every key of the map exactly once (\<open>valid_enum\<close>).
\<close>

fun GetClientsInRoom :: "string list \<Rightarrow> string \<Rightarrow> Server \<Rightarrow> addr list" where
  "GetClientsInRoom [] roomID s = []"
| "GetClientsInRoom (k # ks) roomID s =
     (case clients s k of
        None \<Rightarrow> GetClientsInRoom ks roomID s
      | Some c \<Rightarrow>
          if RoomID (heap s c) = roomID then c # GetClientsInRoom ks roomID s
          else GetClientsInRoom ks roomID s)"

definition valid_enum :: "string list \<Rightarrow> Server \<Rightarrow> bool" where
  "valid_enum ks s \<longleftrightarrow> distinct ks \<and> set ks = dom (clients s)"

section \<open>Matchmaker\<close>

text \<open>
  \<open>Matchmaker.createMatch\<close>. The results of \<open>uuid.New().String()\<close> and
  \<open>rand.Int63()\<close> are the arguments \<open>roomID\<close> and \<open>seed\<close>. The assignments to
  the two players come first (\<open>assignRoom\<close>), the two \<open>SendJSON\<close> calls after.
\<close>

definition assignRoom :: "string \<Rightarrow> addr \<Rightarrow> Server \<Rightarrow> Server" where
  "assignRoom roomID p s =
     upd p (\<lambda>c. c\<lparr>RoomID := roomID, InQueue := False, IsAlive := True, Score := 0\<rparr>) s"

definition createMatch :: "string \<times> goint \<Rightarrow> addr \<Rightarrow> addr \<Rightarrow> Server \<Rightarrow> outcome" where
  "createMatch rs player1 player2 s =
     (let roomID = fst rs; seed = snd rs;
          s1 = assignRoom roomID player1 s;
          s2 = assignRoom roomID player2 s1
      in andThen
           (SendJSON player1 ''GAME_START''
              (GameStartPayload roomID seed
                 (ID (heap s2 player1)) (Name (heap s2 player1))
                 (ID (heap s2 player2)) (Name (heap s2 player2))) s2)
           (\<lambda>s3. SendJSON player2 ''GAME_START''
              (GameStartPayload roomID seed
                 (ID (heap s3 player2)) (Name (heap s3 player2))
                 (ID (heap s3 player1)) (Name (heap s3 player1))) s3))"

text \<open>
  The body of the loop of \<open>Matchmaker.Run\<close> for a client just received from the
  channel: with the waiting slot empty, store it; otherwise create the match of the
  waiting client and the new one and then clear the slot.
\<close>

definition Run_body :: "string \<times> goint \<Rightarrow> addr \<Rightarrow> Server \<Rightarrow> outcome" where
  "Run_body rs client s =
     (case waiting s of
        None \<Rightarrow> Done (s\<lparr>waiting := Some client\<rparr>)
      | Some w \<Rightarrow> andThen (createMatch rs w client s) (\<lambda>s'. Done (s'\<lparr>waiting := None\<rparr>)))"

text \<open>
  \<open>AddToQueue\<close> sends on the channel; one iteration of the loop receives its head.
  On an empty channel the receive blocks and nothing happens. The channel buffers 100
  clients and a send on a full channel blocks until the loop has received; the model,
  which takes each event as a whole, keeps the channel as a list of any length.
\<close>

definition AddToQueue :: "addr \<Rightarrow> Server \<Rightarrow> Server" where
  "AddToQueue client s = s\<lparr>queue := queue s @ [client]\<rparr>"

definition Run_iter :: "string \<times> goint \<Rightarrow> Server \<Rightarrow> outcome" where
  "Run_iter rs s =
     (case queue s of
        [] \<Rightarrow> Done s
      | client # rest \<Rightarrow> Run_body rs client (s\<lparr>queue := rest\<rparr>))"

text \<open>
  The loop never returns by itself: it serves the channel until a panic ends it.
  \<open>Run gen k xs\<close> is the loop run over the clients \<open>xs\<close> that arrive on the
  channel, in arrival order; \<open>gen k\<close> is what the \<open>k\<close>-th call of
  \<open>createMatch\<close> draws as room identifier and seed.
\<close>

fun Run :: "(nat \<Rightarrow> string \<times> goint) \<Rightarrow> nat \<Rightarrow> addr list \<Rightarrow> Server \<Rightarrow> outcome" where
  "Run gen k [] s = Done s"
| "Run gen k (client # rest) s =
     andThen (Run_body (gen k) client s)
       (Run gen (if waiting s = None then k else Suc k) rest)"

section \<open>Message handler\<close>

text \<open>\<open>notifyOpponent\<close>: every client of the sender's room whose identifier differs
  from the sender's is sent the message.\<close>

fun notifyLoop :: "addr \<Rightarrow> string \<Rightarrow> Payload \<Rightarrow> addr list \<Rightarrow> Server \<Rightarrow> outcome" where
  "notifyLoop client msgType payload [] s = Done s"
| "notifyLoop client msgType payload (c # cs) s =
     (if ID (heap s c) \<noteq> ID (heap s client) then
        andThen (SendJSON c msgType payload s) (notifyLoop client msgType payload cs)
      else notifyLoop client msgType payload cs s)"

definition notifyOpponent :: "string list \<Rightarrow> addr \<Rightarrow> string \<Rightarrow> Payload \<Rightarrow> Server \<Rightarrow> outcome" where
  "notifyOpponent ks client msgType payload s =
     notifyLoop client msgType payload (GetClientsInRoom ks (RoomID (heap s client)) s) s"

text \<open>The loops of the \<open>PLAYER_DIED\<close> case, each over the same slice \<open>roomClients\<close>.\<close>

fun allDeadLoop :: "addr list \<Rightarrow> Server \<Rightarrow> bool" where
  "allDeadLoop [] s = True"
| "allDeadLoop (c # cs) s = (if IsAlive (heap s c) then False else allDeadLoop cs s)"

text \<open>The winner loop carries \<open>winner\<close> (\<open>None\<close> is the nil pointer) and \<open>isDraw\<close>;
  scores are compared as signed integers.\<close>

fun winnerLoop :: "addr list \<Rightarrow> Server \<Rightarrow> addr option \<times> bool \<Rightarrow> addr option \<times> bool" where
  "winnerLoop [] s acc = acc"
| "winnerLoop (c # cs) s (None, isDraw) = winnerLoop cs s (Some c, isDraw)"
| "winnerLoop (c # cs) s (Some w, isDraw) =
     (if sint (Score (heap s w)) < sint (Score (heap s c)) then winnerLoop cs s (Some c, False)
      else if Score (heap s c) = Score (heap s w) then winnerLoop cs s (Some w, True)
      else winnerLoop cs s (Some w, isDraw))"

text \<open>In the branch that names the winner, \<open>winner.ID\<close> dereferences the pointer. The
  loop only runs over a non-empty slice, for which \<open>winner\<close> is set
  (\<open>winnerLoop_Some\<close>).\<close>

fun gameOverLoop :: "addr option \<Rightarrow> bool \<Rightarrow> addr list \<Rightarrow> Server \<Rightarrow> outcome" where
  "gameOverLoop winner isDraw [] s = Done s"
| "gameOverLoop winner isDraw (c # cs) s =
     (if isDraw then
        andThen (SendJSON c ''GAME_OVER'' (GameOverPayload [] ''draw'') s)
          (gameOverLoop winner isDraw cs)
      else
        (case winner of
           None \<Rightarrow> Panic NilPointerDereference s
         | Some w \<Rightarrow>
             andThen (SendJSON c ''GAME_OVER''
                        (GameOverPayload (ID (heap s w)) ''all_players_died'') s)
               (gameOverLoop winner isDraw cs)))"

text \<open>The persistence loop; \<open>dbOK k\<close> says whether the \<open>k\<close>-th \<open>INSERT\<close> of this
  handler call succeeds, \<open>k\<close> counting from the given index.\<close>

fun saveLoop :: "(nat \<Rightarrow> bool) \<Rightarrow> nat \<Rightarrow> addr list \<Rightarrow> Server \<Rightarrow> Server" where
  "saveLoop dbOK k [] s = s"
| "saveLoop dbOK k (c # cs) s =
     saveLoop dbOK (Suc k) cs
       (SaveScore (dbOK k) (ID (heap s c)) (Name (heap s c)) (Score (heap s c)) s)"

fun cleanupLoop :: "addr list \<Rightarrow> Server \<Rightarrow> Server" where
  "cleanupLoop [] s = s"
| "cleanupLoop (c # cs) s =
     cleanupLoop cs (upd c (\<lambda>x. x\<lparr>RoomID := [], IsAlive := True, Score := 0\<rparr>) s)"

text \<open>
  \<open>handleMessage\<close>, one case per message type and nothing for any other type.
  \<open>ks1\<close> is the order of the range inside \<open>notifyOpponent\<close>, \<open>ks2\<close> the order of
  the handler's own call of \<open>GetClientsInRoom\<close> in the \<open>PLAYER_DIED\<close> case, and
  \<open>dbOK\<close> the outcomes of the handler's \<open>INSERT\<close>s in call order. The anti-cheat
  test \<open>payload.Score - client.Score > 50\<close> is a signed comparison of the wrapped
  64-bit difference.
\<close>

definition handleJoinQueue :: "addr \<Rightarrow> Message \<Rightarrow> Server \<Rightarrow> Server" where
  "handleJoinQueue client msg s =
     (if \<not> InQueue (heap s client) \<and> RoomID (heap s client) = [] then
        let payloadName = (case NameField msg of None \<Rightarrow> ID (heap s client) | Some n \<Rightarrow> n);
            s1 = (if payloadName \<noteq> [] then upd client (\<lambda>c. c\<lparr>Name := payloadName\<rparr>) s
                  else upd client (\<lambda>c. c\<lparr>Name := ID (heap s client)\<rparr>) s);
            s2 = AddToQueue client s1
        in upd client (\<lambda>c. c\<lparr>InQueue := True\<rparr>) s2
      else s)"

definition handleUpdateScore :: "string list \<Rightarrow> addr \<Rightarrow> Message \<Rightarrow> Server \<Rightarrow> outcome" where
  "handleUpdateScore ks1 client msg s =
     (case ScoreField msg of
        None \<Rightarrow> Done s
      | Some score \<Rightarrow>
          if 50 < sint (score - Score (heap s client)) then
            notifyOpponent ks1 client ''OPPONENT_UPDATE''
              (OpponentUpdatePayload (Score (heap s client)) (IsAlive (heap s client))) s
          else
            let s1 = upd client (\<lambda>c. c\<lparr>Score := score\<rparr>) s
            in notifyOpponent ks1 client ''OPPONENT_UPDATE''
                 (OpponentUpdatePayload (Score (heap s1 client)) (IsAlive (heap s1 client))) s1)"

definition handlePlayerDied ::
  "string list \<Rightarrow> string list \<Rightarrow> (nat \<Rightarrow> bool) \<Rightarrow> addr \<Rightarrow> Message \<Rightarrow> Server \<Rightarrow> outcome" where
  "handlePlayerDied ks1 ks2 dbOK client msg s =
     (case ScoreField msg of
        None \<Rightarrow> Done s
      | Some score \<Rightarrow>
          let s1 = upd client (\<lambda>c. c\<lparr>Score := score, IsAlive := False\<rparr>) s
          in andThen
               (notifyOpponent ks1 client ''OPPONENT_UPDATE''
                  (OpponentUpdatePayload (Score (heap s1 client)) False) s1)
               (\<lambda>s2.
                  let roomClients = GetClientsInRoom ks2 (RoomID (heap s2 client)) s2
                  in if allDeadLoop roomClients s2 then
                       let wd = winnerLoop roomClients s2 (None, False)
                       in andThen (gameOverLoop (fst wd) (snd wd) roomClients s2)
                            (\<lambda>s3. Done (cleanupLoop roomClients (saveLoop dbOK 0 roomClients s3)))
                     else Done s2))"

definition handleLeaveGame :: "string list \<Rightarrow> (nat \<Rightarrow> bool) \<Rightarrow> addr \<Rightarrow> Server \<Rightarrow> outcome" where
  "handleLeaveGame ks1 dbOK client s =
     (if RoomID (heap s client) = [] then Done s
      else
        let s1 = SaveScore (dbOK 0) (ID (heap s client)) (Name (heap s client))
                   (Score (heap s client)) s
        in andThen
             (notifyOpponent ks1 client ''OPPONENT_LEFT''
                (OpponentUpdatePayload (Score (heap s1 client)) False) s1)
             (\<lambda>s2. Done (upd client
                (\<lambda>c. c\<lparr>RoomID := [], IsAlive := True, Score := 0, InQueue := False\<rparr>) s2)))"

definition handleMessage ::
  "string list \<Rightarrow> string list \<Rightarrow> (nat \<Rightarrow> bool) \<Rightarrow> addr \<Rightarrow> Message \<Rightarrow> Server \<Rightarrow> outcome" where
  "handleMessage ks1 ks2 dbOK client msg s =
     (if Type msg = ''JOIN_QUEUE'' then Done (handleJoinQueue client msg s)
      else if Type msg = ''UPDATE_SCORE'' then handleUpdateScore ks1 client msg s
      else if Type msg = ''PLAYER_DIED'' then handlePlayerDied ks1 ks2 dbOK client msg s
      else if Type msg = ''LEAVE_GAME'' then handleLeaveGame ks1 dbOK client s
      else Done s)"

section \<open>The server as a sequence of events\<close>

text \<open>
  The goroutines only meet in the shared state. An event is one message handled for a
  connection (with the two range orders it happens to see and the outcomes of its
  \<open>INSERT\<close>s), one iteration of the matchmaker's loop (with the room identifier and
  seed a match would draw), one registration or unregistration served by the hub, or
  one iteration of a client's write pump. Each event is taken as atomic.

  \<open>handleMessage\<close> is called by \<open>ServeWs\<close> on the goroutine on which
  \<open>net/http\<close> serves the request; \<open>net/http\<close> recovers a panic of that goroutine,
  so a panic while a message is handled ends that handler where it stands (the deferred
  function of \<open>ServeWs\<close> then unregisters the client, a later event) and the server
  goes on from the state at the panic. The hub's and the matchmaker's loops run on
  goroutines started by \<open>main\<close> with nothing to recover them: a panic there ends the
  process, and the run stops.
\<close>

datatype Event =
    Recv "string list" "string list" "nat \<Rightarrow> bool" addr Message
  | Pair "string \<times> goint"
  | Reg addr
  | Unreg addr
  | Write addr

fun step :: "Event \<Rightarrow> Server \<Rightarrow> outcome" where
  "step (Recv ks1 ks2 dbOK client msg) s = Done (state_of (handleMessage ks1 ks2 dbOK client msg s))"
| "step (Pair rs) s = Run_iter rs s"
| "step (Reg c) s = Done (Register c s)"
| "step (Unreg c) s = Unregister c s"
| "step (Write c) s = Done (WritePump_iter c s)"

fun run :: "Event list \<Rightarrow> Server \<Rightarrow> outcome" where
  "run [] s = Done s"
| "run (e # es) s = andThen (step e s) (run es)"

section \<open>Vocabulary of the properties\<close>

text \<open>
  What \<open>SendJSON\<close> does to an open channel: the message is buffered if the buffer
  has room and dropped otherwise.
\<close>

definition offer :: "Chan \<Rightarrow> string \<times> Payload \<Rightarrow> Chan" where
  "offer ch m = (if length (buf ch) < 256 then ch\<lparr>buf := buf ch @ [m]\<rparr> else ch)"

text \<open>The messages buffered for connection \<open>c\<close> between two states, and the
  \<open>GAME_OVER\<close> messages among buffered messages.\<close>

definition newMsgs :: "addr \<Rightarrow> Server \<Rightarrow> Server \<Rightarrow> (string \<times> Payload) list" where
  "newMsgs c s s' = drop (length (buf (chans s c))) (buf (chans s' c))"

definition gameOvers :: "(string \<times> Payload) list \<Rightarrow> (string \<times> Payload) list" where
  "gameOvers ms = filter (\<lambda>m. fst m = ''GAME_OVER'') ms"

text \<open>
  Of the rows handed to \<open>SaveScore\<close> one after the other, those whose \<open>INSERT\<close>
  succeeds: the \<open>j\<close>-th row is kept when \<open>dbOK (k + j)\<close>.
\<close>

fun rowsSaved :: "(nat \<Rightarrow> bool) \<Rightarrow> nat \<Rightarrow> 'a list \<Rightarrow> 'a list" where
  "rowsSaved dbOK k [] = []"
| "rowsSaved dbOK k (x # xs) = (if dbOK k then [x] else []) @ rowsSaved dbOK (Suc k) xs"

text \<open>
  A session of two participants: \<open>a\<close> and \<open>b\<close> are different connections, both
  registered in the hub under their own identifiers (so the hub has not closed their
  \<open>Send\<close> channels) and both in room \<open>r\<close>, and the hub holds no other entry whose
  client is in room \<open>r\<close>.
\<close>

definition session2 :: "Server \<Rightarrow> string \<Rightarrow> addr \<Rightarrow> addr \<Rightarrow> bool" where
  "session2 s r a b \<longleftrightarrow>
     a \<noteq> b
     \<and> clients s (ID (heap s a)) = Some a \<and> clients s (ID (heap s b)) = Some b
     \<and> \<not> closed (chans s a) \<and> \<not> closed (chans s b)
     \<and> RoomID (heap s a) = r \<and> RoomID (heap s b) = r
     \<and> (\<forall>k c. clients s k = Some c \<longrightarrow> RoomID (heap s c) = r \<longrightarrow>
            (k = ID (heap s a) \<and> c = a) \<or> (k = ID (heap s b) \<and> c = b))"

text \<open>
  The winner rule in the spec's words, on the two participants' scores read as
  integers: the strictly higher score wins, equal scores give no winner identifier.
\<close>

definition winnerId_spec :: "string \<Rightarrow> int \<Rightarrow> string \<Rightarrow> int \<Rightarrow> string" where
  "winnerId_spec ida sa idb sb = (if sb < sa then ida else if sa < sb then idb else [])"

text \<open>
  The outcome of a room with any number of clients, from their scores in the order of
  the slice: the top score, whether it is shared (held by at least two of them: a
  draw), and the first client that holds it.
\<close>

fun topScore :: "int list \<Rightarrow> int" where
  "topScore [] = 0"
| "topScore [x] = x"
| "topScore (x # y # ys) = max x (topScore (y # ys))"

definition topShared :: "int list \<Rightarrow> bool" where
  "topShared xs \<longleftrightarrow> 2 \<le> count_list xs (topScore xs)"

definition scoresOf :: "Server \<Rightarrow> addr list \<Rightarrow> int list" where
  "scoresOf s cs = map (\<lambda>c. sint (Score (heap s c))) cs"

definition topClient :: "Server \<Rightarrow> addr list \<Rightarrow> addr option" where
  "topClient s cs = find (\<lambda>c. sint (Score (heap s c)) = topScore (scoresOf s cs)) cs"

text \<open>
  The connections the matchmaker holds and has not matched yet: those in the channel
  and the one in the waiting slot.
\<close>

definition held :: "Server \<Rightarrow> addr list" where
  "held s = queue s @ (case waiting s of None \<Rightarrow> [] | Some w \<Rightarrow> [w])"

definition queue_inv :: "Server \<Rightarrow> bool" where
  "queue_inv s \<longleftrightarrow>
     distinct (held s)
     \<and> (\<forall>c \<in> set (held s). InQueue (heap s c) \<and> RoomID (heap s c) = [])"

text \<open>
  The part of \<open>queue_inv\<close> that does not look at the fields of the client in the
  waiting slot, and the relation between two states under which \<open>queue_inv\<close> is
  kept: the matchmaker holds the same connections, and every connection with its
  in-queue flag set and no room is still so.
\<close>

definition queue_inv1 :: "Server \<Rightarrow> bool" where
  "queue_inv1 s \<longleftrightarrow>
     distinct (held s)
     \<and> (\<forall>c \<in> set (queue s). InQueue (heap s c) \<and> RoomID (heap s c) = [])"

definition keeps :: "Server \<Rightarrow> Server \<Rightarrow> bool" where
  "keeps s t \<longleftrightarrow>
     queue t = queue s \<and> waiting t = waiting s
     \<and> (\<forall>n. InQueue (heap s n) \<and> RoomID (heap s n) = [] \<longrightarrow>
            InQueue (heap t n) \<and> RoomID (heap t n) = [])"

text \<open>
  From state \<open>s\<close> to state \<open>t\<close> every send buffer has only been appended to, and
  the messages appended to the buffer of connection \<open>c\<close> are among \<open>A c\<close>.
\<close>

definition grows :: "(addr \<Rightarrow> (string \<times> Payload) set) \<Rightarrow> Server \<Rightarrow> Server \<Rightarrow> bool" where
  "grows A s t \<longleftrightarrow>
     (\<forall>c. \<exists>ms. buf (chans t c) = buf (chans s c) @ ms \<and> set ms \<subseteq> A c)"

text \<open>
  Concrete servers for the examples. Connection 0 (\<open>guest_a\<close>) and connection 1
  (\<open>guest_b\<close>) are registered, their channels open and empty; in \<open>inRoom\<close> they are
  matched into room \<open>r1\<close>, in \<open>inLobby\<close> they are in no room. In \<open>inRoomFull\<close>
  the buffer of \<open>guest_b\<close> holds 256 messages its write pump has not taken (its
  opponent's score updates, say). In \<open>lobby4\<close> four connections are registered and
  in no room.
\<close>

definition mkClient :: "string \<Rightarrow> string \<Rightarrow> Client" where
  "mkClient i r = \<lparr>ID = i, Name = i, RoomID = r, InQueue = False, IsAlive = True, Score = 0\<rparr>"

definition emptyChan :: Chan where
  "emptyChan = \<lparr>buf = [], closed = False\<rparr>"

definition inRoom :: Server where
  "inRoom =
     \<lparr>heap = (\<lambda>a. if a = 0 then mkClient ''guest_a'' ''r1''
                   else if a = 1 then mkClient ''guest_b'' ''r1''
                   else mkClient ''guest_c'' []),
      chans = (\<lambda>a. emptyChan),
      clients = [''guest_a'' \<mapsto> 0, ''guest_b'' \<mapsto> 1],
      queue = [], waiting = None, written = [], saved = []\<rparr>"

definition inLobby :: Server where
  "inLobby =
     \<lparr>heap = (\<lambda>a. if a = 0 then mkClient ''guest_a'' []
                   else if a = 1 then mkClient ''guest_b'' []
                   else mkClient ''guest_c'' []),
      chans = (\<lambda>a. emptyChan),
      clients = [''guest_a'' \<mapsto> 0, ''guest_b'' \<mapsto> 1],
      queue = [], waiting = None, written = [], saved = []\<rparr>"

definition fullBuf :: "(string \<times> Payload) list" where
  "fullBuf = replicate 256 (''OPPONENT_UPDATE'', OpponentUpdatePayload 0 True)"

definition inRoomFull :: Server where
  "inRoomFull = inRoom\<lparr>chans := (chans inRoom)(1 := \<lparr>buf = fullBuf, closed = False\<rparr>)\<rparr>"

definition inLobbyFull :: Server where
  "inLobbyFull = inLobby\<lparr>chans := (chans inLobby)(1 := \<lparr>buf = fullBuf, closed = False\<rparr>)\<rparr>"

definition lobby4 :: Server where
  "lobby4 =
     \<lparr>heap = (\<lambda>a. if a = 0 then mkClient ''guest_a'' []
                   else if a = 1 then mkClient ''guest_b'' []
                   else if a = 2 then mkClient ''guest_c'' []
                   else mkClient ''guest_d'' []),
      chans = (\<lambda>a. emptyChan),
      clients = [''guest_a'' \<mapsto> 0, ''guest_b'' \<mapsto> 1, ''guest_c'' \<mapsto> 2, ''guest_d'' \<mapsto> 3],
      queue = [], waiting = None, written = [], saved = []\<rparr>"

text \<open>The inbound messages of the examples, as the client sends them, and database
  outcomes: every \<open>INSERT\<close> succeeds, or every one fails.\<close>

definition died :: "goint \<Rightarrow> Message" where
  "died x = \<lparr>Type = ''PLAYER_DIED'', ScoreField = Some x, NameField = None\<rparr>"

definition updateScore :: "goint \<Rightarrow> Message" where
  "updateScore x = \<lparr>Type = ''UPDATE_SCORE'', ScoreField = Some x, NameField = None\<rparr>"


definition joinQueue :: "string \<Rightarrow> Message" where
  "joinQueue n = \<lparr>Type = ''JOIN_QUEUE'', ScoreField = None, NameField = Some n\<rparr>"

definition dbUp :: "nat \<Rightarrow> bool" where
  "dbUp k = True"

definition dbDown :: "nat \<Rightarrow> bool" where
  "dbDown k = False"

section \<open>Frame lemmas for the primitive updates\<close>

lemma SaveScore_simps [simp]:
  "heap (SaveScore ok i n x s) = heap s"
  "chans (SaveScore ok i n x s) = chans s"
  "clients (SaveScore ok i n x s) = clients s"
  "queue (SaveScore ok i n x s) = queue s"
  "waiting (SaveScore ok i n x s) = waiting s"
  "written (SaveScore ok i n x s) = written s"
  "saved (SaveScore ok i n x s) = (if ok then saved s @ [(i, n, x)] else saved s)"
  by (simp_all add: SaveScore_def)

lemma upd_simps [simp]:
  "heap (upd c f s) = (heap s)(c := f (heap s c))"
  "chans (upd c f s) = chans s"
  "clients (upd c f s) = clients s"
  "queue (upd c f s) = queue s"
  "waiting (upd c f s) = waiting s"
  "written (upd c f s) = written s"
  "saved (upd c f s) = saved s"
  by (simp_all add: upd_def)

lemma offer_simps [simp]:
  "closed (offer ch m) = closed ch"
  "buf (offer ch m) = (if length (buf ch) < 256 then buf ch @ [m] else buf ch)"
  by (simp_all add: offer_def)

lemma SendJSON_open:
  "\<not> closed (chans s c) \<Longrightarrow>
   SendJSON c t p s = Done (s\<lparr>chans := (chans s)(c := offer (chans s c) (t, p))\<rparr>)"
  by (simp add: SendJSON_def offer_def)

lemma SendJSON_closed:
  "closed (chans s c) \<Longrightarrow> SendJSON c t p s = Panic SendOnClosedChannel s"
  by (simp add: SendJSON_def)

lemma SendJSON_state [simp]:
  "heap (state_of (SendJSON c t p s)) = heap s"
  "clients (state_of (SendJSON c t p s)) = clients s"
  "queue (state_of (SendJSON c t p s)) = queue s"
  "waiting (state_of (SendJSON c t p s)) = waiting s"
  "written (state_of (SendJSON c t p s)) = written s"
  "saved (state_of (SendJSON c t p s)) = saved s"
  "closed (chans (state_of (SendJSON c t p s)) n) = closed (chans s n)"
  by (simp_all add: SendJSON_def)

lemma SendJSON_chans:
  "chans (state_of (SendJSON c t p s)) =
     (if closed (chans s c) then chans s else (chans s)(c := offer (chans s c) (t, p)))"
  by (auto simp: SendJSON_def offer_def)

section \<open>Matchmaking\<close>

lemma andThen_Done_iff:
  "andThen r f = Done t \<longleftrightarrow> (\<exists>u. r = Done u \<and> f u = Done t)"
  by (cases r) simp_all

lemma state_of_andThen:
  "state_of (andThen r f) = (case r of Done u \<Rightarrow> state_of (f u) | Panic p u \<Rightarrow> u)"
  by (cases r) simp_all

lemma assignRoom_simps [simp]:
  "heap (assignRoom r p s) =
     (heap s)(p := (heap s p)\<lparr>RoomID := r, InQueue := False, IsAlive := True, Score := 0\<rparr>)"
  "chans (assignRoom r p s) = chans s"
  "clients (assignRoom r p s) = clients s"
  "queue (assignRoom r p s) = queue s"
  "waiting (assignRoom r p s) = waiting s"
  "written (assignRoom r p s) = written s"
  "saved (assignRoom r p s) = saved s"
  by (simp_all add: assignRoom_def)

lemma createMatch_frame [simp]:
  "heap (state_of (createMatch rs a b s)) = heap (assignRoom (fst rs) b (assignRoom (fst rs) a s))"
  "waiting (state_of (createMatch rs a b s)) = waiting s"
  "queue (state_of (createMatch rs a b s)) = queue s"
  "clients (state_of (createMatch rs a b s)) = clients s"
  "written (state_of (createMatch rs a b s)) = written s"
  "saved (state_of (createMatch rs a b s)) = saved s"
  "closed (chans (state_of (createMatch rs a b s)) n) = closed (chans s n)"
  by (simp_all add: createMatch_def Let_def SendJSON_def)

lemma createMatch_eq:
  "createMatch (roomID, seed) p1 p2 s =
     andThen
       (SendJSON p1 ''GAME_START''
          (GameStartPayload roomID seed (ID (heap s p1)) (Name (heap s p1))
             (ID (heap s p2)) (Name (heap s p2)))
          (assignRoom roomID p2 (assignRoom roomID p1 s)))
       (SendJSON p2 ''GAME_START''
          (GameStartPayload roomID seed (ID (heap s p2)) (Name (heap s p2))
             (ID (heap s p1)) (Name (heap s p1))))"
proof (cases "closed (chans s p1)")
  case True
  then show ?thesis
    by (simp add: createMatch_def Let_def SendJSON_closed)
next
  case False
  then show ?thesis
    by (simp add: createMatch_def Let_def SendJSON_open)
qed

lemma createMatch_open:
  assumes "\<not> closed (chans s p1)" and "\<not> closed (chans s p2)" and "p1 \<noteq> p2"
  shows "createMatch (roomID, seed) p1 p2 s =
     Done ((assignRoom roomID p2 (assignRoom roomID p1 s))
       \<lparr>chans := (chans s)
          (p1 := offer (chans s p1)
                   (''GAME_START'',
                    GameStartPayload roomID seed (ID (heap s p1)) (Name (heap s p1))
                      (ID (heap s p2)) (Name (heap s p2))),
           p2 := offer (chans s p2)
                   (''GAME_START'',
                    GameStartPayload roomID seed (ID (heap s p2)) (Name (heap s p2))
                      (ID (heap s p1)) (Name (heap s p1))))\<rparr>)"
  using assms by (simp add: createMatch_def Let_def SendJSON_open)

text \<open>
  A pairing on which C4 as worded fails. With the buffer of \<open>guest_b\<close> full, pairing \<open>guest_a\<close> with \<open>guest_b\<close> buffers
  one \<open>GAME_START\<close>, for \<open>guest_a\<close>, and drops the other: \<open>guest_b\<close> is matched
  into the room without a notification.
\<close>

theorem createMatch_full_buffer_counterexample:
  "newMsgs 0 inLobbyFull (state_of (createMatch (''r1'', 7) 0 1 inLobbyFull))
     = [(''GAME_START'', GameStartPayload ''r1'' 7 ''guest_a'' ''guest_a'' ''guest_b'' ''guest_b'')]
   \<and> newMsgs 1 inLobbyFull (state_of (createMatch (''r1'', 7) 0 1 inLobbyFull)) = []
   \<and> RoomID (heap (state_of (createMatch (''r1'', 7) 0 1 inLobbyFull)) 1) = ''r1''"
  by (simp add: createMatch_def Let_def SendJSON_def newMsgs_def inLobbyFull_def inLobby_def
      fullBuf_def emptyChan_def mkClient_def)

text \<open>
  C4, as amended. \<open>createMatch\<close> is the two \<open>SendJSON\<close> calls, to player 1 and then
  to player 2, made in the state in which both players already have the new room
  identifier, alive = true, score = 0 and in-queue = false and nothing has been sent;
  these fields are set whatever the sends do. The two notifications carry the same
  room identifier and the same seed, and each carries the recipient's identifier and
  name as \<open>myId\<close>/\<open>myName\<close> and the other player's as
  \<open>opponentId\<close>/\<open>opponentName\<close>. For two different connections whose channels
  are open, each is offered its notification: it is buffered if the buffer has room and
  dropped otherwise.
\<close>

theorem createMatch_notifications:
  "createMatch (roomID, seed) p1 p2 s =
     andThen
       (SendJSON p1 ''GAME_START''
          (GameStartPayload roomID seed (ID (heap s p1)) (Name (heap s p1))
             (ID (heap s p2)) (Name (heap s p2)))
          (assignRoom roomID p2 (assignRoom roomID p1 s)))
       (SendJSON p2 ''GAME_START''
          (GameStartPayload roomID seed (ID (heap s p2)) (Name (heap s p2))
             (ID (heap s p1)) (Name (heap s p1))))
   \<and> chans (assignRoom roomID p2 (assignRoom roomID p1 s)) = chans s
   \<and> heap (assignRoom roomID p2 (assignRoom roomID p1 s)) p1 =
       (heap s p1)\<lparr>RoomID := roomID, InQueue := False, IsAlive := True, Score := 0\<rparr>
   \<and> heap (assignRoom roomID p2 (assignRoom roomID p1 s)) p2 =
       (heap s p2)\<lparr>RoomID := roomID, InQueue := False, IsAlive := True, Score := 0\<rparr>
   \<and> heap (state_of (createMatch (roomID, seed) p1 p2 s)) =
       heap (assignRoom roomID p2 (assignRoom roomID p1 s))
   \<and> (p1 \<noteq> p2 \<and> \<not> closed (chans s p1) \<and> \<not> closed (chans s p2) \<longrightarrow>
        createMatch (roomID, seed) p1 p2 s =
          Done ((assignRoom roomID p2 (assignRoom roomID p1 s))
            \<lparr>chans := (chans s)
               (p1 := offer (chans s p1)
                        (''GAME_START'',
                         GameStartPayload roomID seed (ID (heap s p1)) (Name (heap s p1))
                           (ID (heap s p2)) (Name (heap s p2))),
                p2 := offer (chans s p2)
                        (''GAME_START'',
                         GameStartPayload roomID seed (ID (heap s p2)) (Name (heap s p2))
                           (ID (heap s p1)) (Name (heap s p1))))\<rparr>)
        \<and> (length (buf (chans s p1)) < 256 \<longrightarrow>
             newMsgs p1 s (state_of (createMatch (roomID, seed) p1 p2 s)) =
               [(''GAME_START'',
                 GameStartPayload roomID seed (ID (heap s p1)) (Name (heap s p1))
                   (ID (heap s p2)) (Name (heap s p2)))])
        \<and> (length (buf (chans s p2)) < 256 \<longrightarrow>
             newMsgs p2 s (state_of (createMatch (roomID, seed) p1 p2 s)) =
               [(''GAME_START'',
                 GameStartPayload roomID seed (ID (heap s p2)) (Name (heap s p2))
                   (ID (heap s p1)) (Name (heap s p1)))]))"
proof -
  have open_case: "p1 \<noteq> p2 \<and> \<not> closed (chans s p1) \<and> \<not> closed (chans s p2) \<longrightarrow>
        createMatch (roomID, seed) p1 p2 s =
          Done ((assignRoom roomID p2 (assignRoom roomID p1 s))
            \<lparr>chans := (chans s)
               (p1 := offer (chans s p1)
                        (''GAME_START'',
                         GameStartPayload roomID seed (ID (heap s p1)) (Name (heap s p1))
                           (ID (heap s p2)) (Name (heap s p2))),
                p2 := offer (chans s p2)
                        (''GAME_START'',
                         GameStartPayload roomID seed (ID (heap s p2)) (Name (heap s p2))
                           (ID (heap s p1)) (Name (heap s p1))))\<rparr>)
        \<and> (length (buf (chans s p1)) < 256 \<longrightarrow>
             newMsgs p1 s (state_of (createMatch (roomID, seed) p1 p2 s)) =
               [(''GAME_START'',
                 GameStartPayload roomID seed (ID (heap s p1)) (Name (heap s p1))
                   (ID (heap s p2)) (Name (heap s p2)))])
        \<and> (length (buf (chans s p2)) < 256 \<longrightarrow>
             newMsgs p2 s (state_of (createMatch (roomID, seed) p1 p2 s)) =
               [(''GAME_START'',
                 GameStartPayload roomID seed (ID (heap s p2)) (Name (heap s p2))
                   (ID (heap s p1)) (Name (heap s p1)))])"
  proof (intro impI, elim conjE)
    assume a: "p1 \<noteq> p2" "\<not> closed (chans s p1)" "\<not> closed (chans s p2)"
    note c = createMatch_open [OF a(2) a(3) a(1), of roomID seed]
    show "createMatch (roomID, seed) p1 p2 s =
          Done ((assignRoom roomID p2 (assignRoom roomID p1 s))
            \<lparr>chans := (chans s)
               (p1 := offer (chans s p1)
                        (''GAME_START'',
                         GameStartPayload roomID seed (ID (heap s p1)) (Name (heap s p1))
                           (ID (heap s p2)) (Name (heap s p2))),
                p2 := offer (chans s p2)
                        (''GAME_START'',
                         GameStartPayload roomID seed (ID (heap s p2)) (Name (heap s p2))
                           (ID (heap s p1)) (Name (heap s p1))))\<rparr>)
        \<and> (length (buf (chans s p1)) < 256 \<longrightarrow>
             newMsgs p1 s (state_of (createMatch (roomID, seed) p1 p2 s)) =
               [(''GAME_START'',
                 GameStartPayload roomID seed (ID (heap s p1)) (Name (heap s p1))
                   (ID (heap s p2)) (Name (heap s p2)))])
        \<and> (length (buf (chans s p2)) < 256 \<longrightarrow>
             newMsgs p2 s (state_of (createMatch (roomID, seed) p1 p2 s)) =
               [(''GAME_START'',
                 GameStartPayload roomID seed (ID (heap s p2)) (Name (heap s p2))
                   (ID (heap s p1)) (Name (heap s p1)))])"
      unfolding c using a(1) by (simp add: newMsgs_def)
  qed
  have 1: "createMatch (roomID, seed) p1 p2 s =
     andThen
       (SendJSON p1 ''GAME_START''
          (GameStartPayload roomID seed (ID (heap s p1)) (Name (heap s p1))
             (ID (heap s p2)) (Name (heap s p2)))
          (assignRoom roomID p2 (assignRoom roomID p1 s)))
       (SendJSON p2 ''GAME_START''
          (GameStartPayload roomID seed (ID (heap s p2)) (Name (heap s p2))
             (ID (heap s p1)) (Name (heap s p1))))"
    by (rule createMatch_eq)
  have 2: "chans (assignRoom roomID p2 (assignRoom roomID p1 s)) = chans s"
    by simp
  have 3: "heap (assignRoom roomID p2 (assignRoom roomID p1 s)) p1 =
       (heap s p1)\<lparr>RoomID := roomID, InQueue := False, IsAlive := True, Score := 0\<rparr>"
    by simp
  have 4: "heap (assignRoom roomID p2 (assignRoom roomID p1 s)) p2 =
       (heap s p2)\<lparr>RoomID := roomID, InQueue := False, IsAlive := True, Score := 0\<rparr>"
    by simp
  have 5: "heap (state_of (createMatch (roomID, seed) p1 p2 s)) =
       heap (assignRoom roomID p2 (assignRoom roomID p1 s))"
    using createMatch_frame(1) [of "(roomID, seed)" p1 p2 s] by simp
  from 1 2 3 4 5 open_case show ?thesis by blast
qed

theorem createMatch_notifications_witness:
  "(0 :: addr) \<noteq> 1 \<and> \<not> closed (chans inLobby 0) \<and> \<not> closed (chans inLobby 1)
   \<and> length (buf (chans inLobby 0)) < 256 \<and> length (buf (chans inLobby 1)) < 256
   \<and> newMsgs 0 inLobby (state_of (createMatch (''r1'', 7) 0 1 inLobby))
       = [(''GAME_START'',
           GameStartPayload ''r1'' 7 (ID (heap inLobby 0)) (Name (heap inLobby 0))
             (ID (heap inLobby 1)) (Name (heap inLobby 1)))]
   \<and> newMsgs 1 inLobby (state_of (createMatch (''r1'', 7) 0 1 inLobby))
       = [(''GAME_START'',
           GameStartPayload ''r1'' 7 (ID (heap inLobby 1)) (Name (heap inLobby 1))
             (ID (heap inLobby 0)) (Name (heap inLobby 0)))]"
proof -
  have h: "(0 :: addr) \<noteq> 1" "\<not> closed (chans inLobby 0)" "\<not> closed (chans inLobby 1)"
    "length (buf (chans inLobby 0)) < 256" "length (buf (chans inLobby 1)) < 256"
    by (simp_all add: inLobby_def emptyChan_def)
  from createMatch_notifications [of "''r1''" 7 0 1 inLobby] h
  show ?thesis by blast
qed

lemma Run_body_frame [simp]:
  "closed (chans (state_of (Run_body rs c s)) n) = closed (chans s n)"
  "queue (state_of (Run_body rs c s)) = queue s"
  "clients (state_of (Run_body rs c s)) = clients s"
  "written (state_of (Run_body rs c s)) = written s"
  "saved (state_of (Run_body rs c s)) = saved s"
  by (cases "waiting s"; cases "createMatch rs (the (waiting s)) c s";
      use createMatch_frame [of rs "the (waiting s)" c s] in \<open>simp add: Run_body_def\<close>)+

lemma createMatch_waiting_update:
  "createMatch rs a b (s\<lparr>waiting := w\<rparr>) =
     (case createMatch rs a b s of
        Done u \<Rightarrow> Done (u\<lparr>waiting := w\<rparr>)
      | Panic p u \<Rightarrow> Panic p (u\<lparr>waiting := w\<rparr>))"
  by (simp add: createMatch_def Let_def SendJSON_def assignRoom_def upd_def)

lemma Run_two:
  assumes "waiting s = None" and "\<not> closed (chans s x)" and "\<not> closed (chans s y)" and "x \<noteq> y"
  shows "Run gen k (x # y # zs) s =
           Run gen (Suc k) zs (state_of (createMatch (gen k) x y s))"
proof -
  obtain r sd where g: "gen k = (r, sd)" by (cases "gen k")
  from createMatch_open [OF assms(2) assms(3) assms(4), of r sd]
  obtain u where u: "createMatch (gen k) x y s = Done u" and w: "waiting u = None"
    using assms(1) g by simp
  have "u\<lparr>waiting := None\<rparr> = u" using w by simp
  then show ?thesis
    using assms(1) u by (simp add: Run_body_def createMatch_waiting_update)
qed

text \<open>
  Where every arrival is a different connection whose channel is open, the loop
  started with an empty waiting slot does not panic and does exactly what
  \<open>floor(N/2)\<close> calls of \<open>createMatch\<close> do, the \<open>j\<close>-th of them (counting from 0)
  on arrivals \<open>2j\<close> and \<open>2j+1\<close> in this order, and leaves the last arrival in the
  waiting slot when \<open>N\<close> is odd.
\<close>

lemma foldl_upt_Suc_shift:
  "foldl f s [0..<Suc m] = foldl (\<lambda>t j. f t (Suc j)) (f s 0) [0..<m]"
proof -
  have "[0..<Suc m] = 0 # map Suc [0..<m]"
    by (simp add: upt_conv_Cons map_Suc_upt del: upt_Suc)
  then show ?thesis
    by (simp add: foldl_map del: upt_Suc)
qed

lemma Run_pairs_open:
  assumes "waiting s = None" and "distinct xs" and "\<forall>c \<in> set xs. \<not> closed (chans s c)"
  shows "Run gen k xs s =
     Done ((foldl (\<lambda>t j. state_of (createMatch (gen (k + j)) (xs ! (2 * j)) (xs ! (2 * j + 1)) t)) s
              [0..<length xs div 2])
           \<lparr>waiting := (if even (length xs) then None else Some (last xs))\<rparr>)"
  using assms
proof (induction xs arbitrary: s k rule: induct_list012)
  case 1
  then show ?case by simp
next
  case (2 x)
  then show ?case by (simp add: Run_body_def)
next
  case (3 x y zs)
  let ?u = "state_of (createMatch (gen k) x y s)"
  have r: "Run gen k (x # y # zs) s = Run gen (Suc k) zs ?u"
    using Run_two [of s x y gen k zs] "3.prems" by simp
  have w: "waiting ?u = None" using "3.prems" by simp
  have d: "distinct zs" using "3.prems" by simp
  have o: "\<forall>c \<in> set zs. \<not> closed (chans ?u c)" using "3.prems" by simp
  have l: "length (x # y # zs) div 2 = Suc (length zs div 2)" by simp
  show ?case
    unfolding r "3.IH"(1) [OF w d o] l foldl_upt_Suc_shift
    by simp
qed

text \<open>
  C3. Four connections join the queue in the order \<open>guest_a\<close>, \<open>guest_b\<close>,
  \<open>guest_c\<close>, \<open>guest_d\<close>; \<open>guest_a\<close> disconnects while it is in the waiting slot
  (the hub unregisters it and closes its \<open>Send\<close> channel). Nothing takes it out of
  the slot: the loop pairs it with \<open>guest_b\<close>, \<open>createMatch\<close> assigns the room
  and panics on its first \<open>SendJSON\<close>, and the loop is dead. Of four arrivals no
  session is announced, \<open>guest_c\<close> and \<open>guest_d\<close> stay in the channel without a
  room, and \<open>guest_b\<close> has a room identifier and no notification. The same from the
  state after the disconnect, on the three arrivals that follow.
\<close>

theorem Run_dies_on_disconnected_waiter:
  "panic_of (run [Recv [] [] dbUp 0 (joinQueue ''A''), Pair (''r1'', 7), Unreg 0,
                  Recv [] [] dbUp 1 (joinQueue ''B''), Recv [] [] dbUp 2 (joinQueue ''C''),
                  Recv [] [] dbUp 3 (joinQueue ''D''),
                  Pair (''r1'', 7), Pair (''r2'', 8), Pair (''r3'', 9)] lobby4)
     = Some SendOnClosedChannel
   \<and> queue (state_of (run [Recv [] [] dbUp 0 (joinQueue ''A''), Pair (''r1'', 7), Unreg 0,
                  Recv [] [] dbUp 1 (joinQueue ''B''), Recv [] [] dbUp 2 (joinQueue ''C''),
                  Recv [] [] dbUp 3 (joinQueue ''D''),
                  Pair (''r1'', 7), Pair (''r2'', 8), Pair (''r3'', 9)] lobby4)) = [2, 3]
   \<and> map (\<lambda>c. RoomID (heap (state_of (run [Recv [] [] dbUp 0 (joinQueue ''A''), Pair (''r1'', 7), Unreg 0,
                  Recv [] [] dbUp 1 (joinQueue ''B''), Recv [] [] dbUp 2 (joinQueue ''C''),
                  Recv [] [] dbUp 3 (joinQueue ''D''),
                  Pair (''r1'', 7), Pair (''r2'', 8), Pair (''r3'', 9)] lobby4)) c)) [0, 1, 2, 3]
       = [''r1'', ''r1'', [], []]
   \<and> map (\<lambda>c. buf (chans (state_of (run [Recv [] [] dbUp 0 (joinQueue ''A''), Pair (''r1'', 7), Unreg 0,
                  Recv [] [] dbUp 1 (joinQueue ''B''), Recv [] [] dbUp 2 (joinQueue ''C''),
                  Recv [] [] dbUp 3 (joinQueue ''D''),
                  Pair (''r1'', 7), Pair (''r2'', 8), Pair (''r3'', 9)] lobby4)) c)) [0, 1, 2, 3]
       = [[], [], [], []]
   \<and> panic_of (Run (\<lambda>k. (''r1'', 7)) 0 [1, 2, 3]
        (state_of (run [Recv [] [] dbUp 0 (joinQueue ''A''), Pair (''r1'', 7), Unreg 0] lobby4)))
     = Some SendOnClosedChannel
   \<and> map (\<lambda>c. RoomID (heap (state_of (Run (\<lambda>k. (''r1'', 7)) 0 [1, 2, 3]
        (state_of (run [Recv [] [] dbUp 0 (joinQueue ''A''), Pair (''r1'', 7), Unreg 0] lobby4)))) c))
        [0, 1, 2, 3]
       = [''r1'', ''r1'', [], []]"
  by code_simp

section \<open>The loops of the handler\<close>

lemma notifyLoop_heap [simp]: "heap (state_of (notifyLoop cl t p cs s)) = heap s"
  by (induction cs arbitrary: s) (simp_all add: SendJSON_def)

lemma notifyLoop_clients [simp]: "clients (state_of (notifyLoop cl t p cs s)) = clients s"
  by (induction cs arbitrary: s) (simp_all add: SendJSON_def)

lemma notifyLoop_queue [simp]: "queue (state_of (notifyLoop cl t p cs s)) = queue s"
  by (induction cs arbitrary: s) (simp_all add: SendJSON_def)

lemma notifyLoop_waiting [simp]: "waiting (state_of (notifyLoop cl t p cs s)) = waiting s"
  by (induction cs arbitrary: s) (simp_all add: SendJSON_def)

lemma notifyLoop_written [simp]: "written (state_of (notifyLoop cl t p cs s)) = written s"
  by (induction cs arbitrary: s) (simp_all add: SendJSON_def)

lemma notifyLoop_saved [simp]: "saved (state_of (notifyLoop cl t p cs s)) = saved s"
  by (induction cs arbitrary: s) (simp_all add: SendJSON_def)

lemma notifyLoop_closed [simp]: "closed (chans (state_of (notifyLoop cl t p cs s)) n) = closed (chans s n)"
  by (induction cs arbitrary: s) (simp_all add: SendJSON_def)

lemma notifyOpponent_frame [simp]:
  "heap (state_of (notifyOpponent ks cl t p s)) = heap s"
  "clients (state_of (notifyOpponent ks cl t p s)) = clients s"
  "queue (state_of (notifyOpponent ks cl t p s)) = queue s"
  "waiting (state_of (notifyOpponent ks cl t p s)) = waiting s"
  "written (state_of (notifyOpponent ks cl t p s)) = written s"
  "saved (state_of (notifyOpponent ks cl t p s)) = saved s"
  "closed (chans (state_of (notifyOpponent ks cl t p s)) n) = closed (chans s n)"
  by (simp_all add: notifyOpponent_def)

lemma gameOverLoop_heap [simp]: "heap (state_of (gameOverLoop w d cs s)) = heap s"
  by (induction w d cs s rule: gameOverLoop.induct) (auto simp: SendJSON_def split: option.split)

lemma gameOverLoop_clients [simp]: "clients (state_of (gameOverLoop w d cs s)) = clients s"
  by (induction w d cs s rule: gameOverLoop.induct) (auto simp: SendJSON_def split: option.split)

lemma gameOverLoop_queue [simp]: "queue (state_of (gameOverLoop w d cs s)) = queue s"
  by (induction w d cs s rule: gameOverLoop.induct) (auto simp: SendJSON_def split: option.split)

lemma gameOverLoop_waiting [simp]: "waiting (state_of (gameOverLoop w d cs s)) = waiting s"
  by (induction w d cs s rule: gameOverLoop.induct) (auto simp: SendJSON_def split: option.split)

lemma gameOverLoop_written [simp]: "written (state_of (gameOverLoop w d cs s)) = written s"
  by (induction w d cs s rule: gameOverLoop.induct) (auto simp: SendJSON_def split: option.split)

lemma gameOverLoop_saved [simp]: "saved (state_of (gameOverLoop w d cs s)) = saved s"
  by (induction w d cs s rule: gameOverLoop.induct) (auto simp: SendJSON_def split: option.split)

lemma gameOverLoop_closed [simp]: "closed (chans (state_of (gameOverLoop w d cs s)) n) = closed (chans s n)"
  by (induction w d cs s rule: gameOverLoop.induct) (auto simp: SendJSON_def split: option.split)

lemma saveLoop_frame [simp]:
  "heap (saveLoop db k cs s) = heap s"
  "chans (saveLoop db k cs s) = chans s"
  "clients (saveLoop db k cs s) = clients s"
  "queue (saveLoop db k cs s) = queue s"
  "waiting (saveLoop db k cs s) = waiting s"
  "written (saveLoop db k cs s) = written s"
  by (induction cs arbitrary: s k) simp_all

lemma saved_saveLoop:
  "saved (saveLoop db k cs s) =
     saved s @ rowsSaved db k (map (\<lambda>c. (ID (heap s c), Name (heap s c), Score (heap s c))) cs)"
  by (induction cs arbitrary: s k) simp_all

lemma cleanupLoop_frame [simp]:
  "chans (cleanupLoop cs s) = chans s"
  "clients (cleanupLoop cs s) = clients s"
  "queue (cleanupLoop cs s) = queue s"
  "waiting (cleanupLoop cs s) = waiting s"
  "written (cleanupLoop cs s) = written s"
  "saved (cleanupLoop cs s) = saved s"
  by (induction cs arbitrary: s) simp_all

lemma heap_cleanupLoop:
  "heap (cleanupLoop cs s) x =
     (if x \<in> set cs then (heap s x)\<lparr>RoomID := [], IsAlive := True, Score := 0\<rparr> else heap s x)"
  by (induction cs arbitrary: s) auto

lemma winnerLoop_Some:
  "cs \<noteq> [] \<or> w \<noteq> None \<Longrightarrow> fst (winnerLoop cs s (w, d)) \<noteq> None"
  by (induction cs s "(w, d)" arbitrary: w d rule: winnerLoop.induct) auto

lemma GetClientsInRoom_filter:
  assumes "\<And>k c. clients s k = Some c \<Longrightarrow> (RoomID (heap s c) = r \<longleftrightarrow> P k)"
    and "\<And>k. P k \<Longrightarrow> clients s k \<noteq> None"
  shows "GetClientsInRoom ks r s = map (\<lambda>k. the (clients s k)) (filter P ks)"
proof (induction ks)
  case Nil
  show ?case by simp
next
  case (Cons k ks)
  show ?case
  proof (cases "clients s k")
    case None
    have "\<not> P k" using assms(2) [of k] None by auto
    with None Cons show ?thesis by simp
  next
    case (Some c)
    with assms(1) Cons show ?thesis by simp
  qed
qed

lemma filter_eq_single:
  "distinct ks \<Longrightarrow> x \<in> set ks \<Longrightarrow> filter (\<lambda>k. k = x) ks = [x]"
  by (induction ks) (auto simp: filter_empty_conv)

lemma filter_two:
  assumes "distinct ks" "x \<in> set ks" "y \<in> set ks" "x \<noteq> y"
  shows "filter (\<lambda>k. k = x \<or> k = y) ks = [x, y] \<or> filter (\<lambda>k. k = x \<or> k = y) ks = [y, x]"
  using assms
proof (induction ks)
  case Nil
  then show ?case by simp
next
  case (Cons k ks)
  show ?case
  proof (cases "k = x")
    case True
    with Cons.prems have "filter (\<lambda>k. k = x \<or> k = y) ks = filter (\<lambda>k. k = y) ks"
      by (intro filter_cong) auto
    with True Cons.prems show ?thesis by (simp add: filter_eq_single)
  next
    case False
    show ?thesis
    proof (cases "k = y")
      case True
      with Cons.prems have "filter (\<lambda>k. k = x \<or> k = y) ks = filter (\<lambda>k. k = x) ks"
        by (intro filter_cong) auto
      with True Cons.prems show ?thesis by (simp add: filter_eq_single)
    next
      case ky: False
      with False Cons show ?thesis by simp
    qed
  qed
qed

lemma session2_room:
  assumes "session2 s r a b" "valid_enum ks s"
  shows "GetClientsInRoom ks r s = [a, b] \<or> GetClientsInRoom ks r s = [b, a]"
proof -
  let ?ia = "ID (heap s a)" and ?ib = "ID (heap s b)"
  let ?P = "\<lambda>k. k = ?ia \<or> k = ?ib"
  from assms(1) have ca: "clients s ?ia = Some a" and cb: "clients s ?ib = Some b"
    and ne: "a \<noteq> b" and ra: "RoomID (heap s a) = r" and rb: "RoomID (heap s b) = r"
    and only: "\<And>k c. clients s k = Some c \<Longrightarrow> RoomID (heap s c) = r \<Longrightarrow>
            (k = ?ia \<and> c = a) \<or> (k = ?ib \<and> c = b)"
    by (auto simp: session2_def)
  from ca cb ne have idne: "?ia \<noteq> ?ib" by auto
  have 1: "\<And>k c. clients s k = Some c \<Longrightarrow> (RoomID (heap s c) = r \<longleftrightarrow> ?P k)"
    using ca cb ra rb only by auto
  have 2: "\<And>k. ?P k \<Longrightarrow> clients s k \<noteq> None"
    using ca cb by auto
  have g: "GetClientsInRoom ks r s = map (\<lambda>k. the (clients s k)) (filter ?P ks)"
    by (rule GetClientsInRoom_filter [where P = ?P, OF 1 2])
  from assms(2) ca cb have "distinct ks" "?ia \<in> set ks" "?ib \<in> set ks"
    by (auto simp: valid_enum_def)
  from filter_two [OF this idne] show ?thesis
    unfolding g using ca cb by auto
qed

lemma GetClientsInRoom_cong:
  "heap s = heap s' \<Longrightarrow> clients s = clients s' \<Longrightarrow>
   GetClientsInRoom ks r s = GetClientsInRoom ks r s'"
  by (induction ks) (simp_all split: option.split)


lemma session2_chans:
  "session2 s r a b \<Longrightarrow> (\<And>n. closed (ch n) = closed (chans s n)) \<Longrightarrow>
   session2 (s\<lparr>chans := ch\<rparr>) r a b"
  by (simp add: session2_def)

lemma session2_upd:
  assumes "session2 s r a b" "\<And>c. ID (f c) = ID c" "\<And>c. RoomID (f c) = RoomID c"
  shows "session2 (upd x f s) r a b"
  using assms unfolding session2_def by (simp add: upd_def) blast

lemma session2_ids: "session2 s r a b \<Longrightarrow> ID (heap s a) \<noteq> ID (heap s b)"
  by (auto simp: session2_def)

lemma session2_sym: "session2 s r a b \<Longrightarrow> session2 s r b a"
  unfolding session2_def by blast

lemma session2_notify:
  assumes ses: "session2 s r a b" and e: "valid_enum ks s"
  shows "notifyOpponent ks a t p s =
           Done (s\<lparr>chans := (chans s)(b := offer (chans s b) (t, p))\<rparr>)"
proof -
  have ne: "a \<noteq> b" and ra: "RoomID (heap s a) = r" and ob: "\<not> closed (chans s b)"
    using ses by (auto simp: session2_def)
  have idne: "ID (heap s a) \<noteq> ID (heap s b)" by (rule session2_ids [OF ses])
  show ?thesis
    using session2_room [OF ses e] ne idne ra ob
    by (auto simp: notifyOpponent_def SendJSON_open)
qed

lemma handleMessage_PLAYER_DIED:
  "Type m = ''PLAYER_DIED'' \<Longrightarrow>
   handleMessage ks1 ks2 db c m s = handlePlayerDied ks1 ks2 db c m s"
  by (simp add: handleMessage_def)

lemma winnerId_spec_sym: "winnerId_spec ia x ib y = winnerId_spec ib y ia x"
  by (simp add: winnerId_spec_def)

lemma first_death:
  assumes ses: "session2 s r a b" and alive: "IsAlive (heap s b)"
    and e1: "valid_enum ks1 s" and e2: "valid_enum ks2 s"
    and m: "ScoreField m = Some x"
  shows "handlePlayerDied ks1 ks2 db a m s =
           Done (s\<lparr>heap := (heap s)(a := (heap s a)\<lparr>Score := x, IsAlive := False\<rparr>),
                   chans := (chans s)
                     (b := offer (chans s b)
                             (''OPPONENT_UPDATE'', OpponentUpdatePayload x False))\<rparr>)"
proof -
  let ?s1 = "upd a (\<lambda>c. c\<lparr>Score := x, IsAlive := False\<rparr>) s"
  let ?p = "OpponentUpdatePayload x False"
  let ?s2 = "?s1\<lparr>chans := (chans ?s1)(b := offer (chans ?s1 b) (''OPPONENT_UPDATE'', ?p))\<rparr>"
  have ses1: "session2 ?s1 r a b" by (rule session2_upd [OF ses]) simp_all
  have ne: "a \<noteq> b" and ra: "RoomID (heap s a) = r" using ses by (auto simp: session2_def)
  have v1: "valid_enum ks1 ?s1" and v2: "valid_enum ks2 ?s2"
    using e1 e2 by (simp_all add: valid_enum_def)
  have ses2: "session2 ?s2 r a b"
    by (rule session2_chans [OF ses1]) simp
  have n: "notifyOpponent ks1 a ''OPPONENT_UPDATE'' ?p ?s1 = Done ?s2"
    by (rule session2_notify [OF ses1 v1])
  have d: "\<not> allDeadLoop (GetClientsInRoom ks2 r ?s2) ?s2"
    using session2_room [OF ses2 v2] ne alive by auto
  show ?thesis
    using n d ne ra m
    by (simp add: handlePlayerDied_def Let_def upd_def)
qed

lemma resolve_pair:
  assumes ne: "c1 \<noteq> c2" and o1: "\<not> closed (chans t c1)" and o2: "\<not> closed (chans t c2)"
  shows "andThen
           (gameOverLoop (fst (winnerLoop [c1, c2] t (None, False)))
              (snd (winnerLoop [c1, c2] t (None, False))) [c1, c2] t)
           (\<lambda>s3. Done (cleanupLoop [c1, c2] (saveLoop db 0 [c1, c2] s3)))
         = Done (t\<lparr>heap := (heap t)
                  (c1 := (heap t c1)\<lparr>RoomID := [], IsAlive := True, Score := 0\<rparr>,
                   c2 := (heap t c2)\<lparr>RoomID := [], IsAlive := True, Score := 0\<rparr>),
               chans := (chans t)
                  (c1 := offer (chans t c1)
                          (''GAME_OVER'',
                           GameOverPayload
                             (winnerId_spec (ID (heap t c1)) (sint (Score (heap t c1)))
                                (ID (heap t c2)) (sint (Score (heap t c2))))
                             (if Score (heap t c1) = Score (heap t c2) then ''draw''
                              else ''all_players_died'')),
                   c2 := offer (chans t c2)
                          (''GAME_OVER'',
                           GameOverPayload
                             (winnerId_spec (ID (heap t c1)) (sint (Score (heap t c1)))
                                (ID (heap t c2)) (sint (Score (heap t c2))))
                             (if Score (heap t c1) = Score (heap t c2) then ''draw''
                              else ''all_players_died''))),
               saved := saved t @
                 rowsSaved db 0
                   (map (\<lambda>c. (ID (heap t c), Name (heap t c), Score (heap t c))) [c1, c2])\<rparr>)"
proof -
  consider (lt) "sint (Score (heap t c1)) < sint (Score (heap t c2))"
    | (eq) "Score (heap t c1) = Score (heap t c2)"
    | (gt) "sint (Score (heap t c2)) < sint (Score (heap t c1))"
    by (metis linorder_neqE_linordered_idom signed_word_eqI)
  then show ?thesis
  proof cases
    case lt
    then have "Score (heap t c1) \<noteq> Score (heap t c2)" by auto
    with lt ne o1 o2 show ?thesis
      by (simp add: SendJSON_open SaveScore_def upd_def winnerId_spec_def)
  next
    case eq
    with ne o1 o2 show ?thesis
      by (simp add: SendJSON_open SaveScore_def upd_def winnerId_spec_def)
  next
    case gt
    then have "Score (heap t c1) \<noteq> Score (heap t c2)"
      and "\<not> sint (Score (heap t c1)) < sint (Score (heap t c2))" by auto
    with gt ne o1 o2 show ?thesis
      by (simp add: SendJSON_open SaveScore_def upd_def winnerId_spec_def)
  qed
qed

lemma second_death:
  assumes ses: "session2 s r a b" and dead: "\<not> IsAlive (heap s a)"
    and e1: "valid_enum ks1 s" and e2: "valid_enum ks2 s"
    and m: "ScoreField m = Some y"
  shows "\<exists>L. (L = [a, b] \<or> L = [b, a]) \<and>
           handlePlayerDied ks1 ks2 db b m s =
             Done (s\<lparr>heap := (heap s)
                  (a := (heap s a)\<lparr>RoomID := [], IsAlive := True, Score := 0\<rparr>,
                   b := (heap s b)\<lparr>RoomID := [], IsAlive := True, Score := 0\<rparr>),
               chans := (chans s)
                  (a := offer (offer (chans s a)
                                (''OPPONENT_UPDATE'', OpponentUpdatePayload y False))
                          (''GAME_OVER'',
                           GameOverPayload
                             (winnerId_spec (ID (heap s a)) (sint (Score (heap s a)))
                                (ID (heap s b)) (sint y))
                             (if Score (heap s a) = y then ''draw'' else ''all_players_died'')),
                   b := offer (chans s b)
                          (''GAME_OVER'',
                           GameOverPayload
                             (winnerId_spec (ID (heap s a)) (sint (Score (heap s a)))
                                (ID (heap s b)) (sint y))
                             (if Score (heap s a) = y then ''draw'' else ''all_players_died''))),
               saved := saved s @
                 rowsSaved db 0
                   (map (\<lambda>c. (ID (heap s c), Name (heap s c),
                          if c = b then y else Score (heap s c))) L)\<rparr>)"
proof -
  let ?s1 = "upd b (\<lambda>c. c\<lparr>Score := y, IsAlive := False\<rparr>) s"
  let ?p = "OpponentUpdatePayload y False"
  let ?s2 = "?s1\<lparr>chans := (chans ?s1)(a := offer (chans ?s1 a) (''OPPONENT_UPDATE'', ?p))\<rparr>"
  let ?L = "GetClientsInRoom ks2 r ?s2"
  let ?go = "(''GAME_OVER'',
                           GameOverPayload
                             (winnerId_spec (ID (heap s a)) (sint (Score (heap s a)))
                                (ID (heap s b)) (sint y))
                             (if Score (heap s a) = y then ''draw'' else ''all_players_died''))"
  let ?res = "\<lambda>L. Done (s\<lparr>heap := (heap s)
                  (a := (heap s a)\<lparr>RoomID := [], IsAlive := True, Score := 0\<rparr>,
                   b := (heap s b)\<lparr>RoomID := [], IsAlive := True, Score := 0\<rparr>),
               chans := (chans s)
                  (a := offer (offer (chans s a) (''OPPONENT_UPDATE'', ?p)) ?go,
                   b := offer (chans s b) ?go),
               saved := saved s @
                 rowsSaved db 0
                   (map (\<lambda>c. (ID (heap s c), Name (heap s c),
                          if c = b then y else Score (heap s c))) L)\<rparr>)"
  have ses1: "session2 ?s1 r b a"
    by (rule session2_upd [OF session2_sym [OF ses]]) simp_all
  have ne: "a \<noteq> b" "b \<noteq> a" and rb: "RoomID (heap s b) = r"
    and oa: "\<not> closed (chans s a)" and ob: "\<not> closed (chans s b)"
    using ses by (auto simp: session2_def)
  have v1: "valid_enum ks1 ?s1" and v2: "valid_enum ks2 ?s2"
    using e1 e2 by (simp_all add: valid_enum_def)
  have ses2: "session2 ?s2 r a b"
    by (rule session2_chans [OF session2_sym [OF ses1]]) simp
  have n: "notifyOpponent ks1 b ''OPPONENT_UPDATE'' ?p ?s1 = Done ?s2"
    by (rule session2_notify [OF ses1 v1])
  have L: "?L = [a, b] \<or> ?L = [b, a]" by (rule session2_room [OF ses2 v2])
  have o2: "\<not> closed (chans ?s2 a)" "\<not> closed (chans ?s2 b)"
    using oa ob by simp_all
  have h: "handlePlayerDied ks1 ks2 db b m s =
             (if allDeadLoop ?L ?s2 then
                andThen
                  (gameOverLoop (fst (winnerLoop ?L ?s2 (None, False)))
                     (snd (winnerLoop ?L ?s2 (None, False))) ?L ?s2)
                  (\<lambda>s3. Done (cleanupLoop ?L (saveLoop db 0 ?L s3)))
              else Done ?s2)"
    using n m rb ne by (simp add: handlePlayerDied_def Let_def)
  from L show ?thesis
  proof
    assume l: "?L = [a, b]"
    have ad: "allDeadLoop [a, b] ?s2" using dead ne by simp
    have "handlePlayerDied ks1 ks2 db b m s =
            andThen
              (gameOverLoop (fst (winnerLoop [a, b] ?s2 (None, False)))
                 (snd (winnerLoop [a, b] ?s2 (None, False))) [a, b] ?s2)
              (\<lambda>s3. Done (cleanupLoop [a, b] (saveLoop db 0 [a, b] s3)))"
      unfolding h l using ad by (simp only: if_True)
    also have "\<dots> = ?res [a, b]"
      unfolding resolve_pair [OF ne(1) o2(1) o2(2)] using ne
      by (simp add: upd_def)
    finally show ?thesis by blast
  next
    assume l: "?L = [b, a]"
    have ad: "allDeadLoop [b, a] ?s2" using dead ne by simp
    have "handlePlayerDied ks1 ks2 db b m s =
            andThen
              (gameOverLoop (fst (winnerLoop [b, a] ?s2 (None, False)))
                 (snd (winnerLoop [b, a] ?s2 (None, False))) [b, a] ?s2)
              (\<lambda>s3. Done (cleanupLoop [b, a] (saveLoop db 0 [b, a] s3)))"
      unfolding h l using ad by (simp only: if_True)
    also have "\<dots> = ?res [b, a]"
      unfolding resolve_pair [OF ne(2) o2(2) o2(1)] using ne
      by (simp add: upd_def winnerId_spec_sym [of "ID (heap s b)"] fun_upd_twist
          eq_commute [of y])
    finally show ?thesis by blast
  qed
qed

section \<open>Both participants dead\<close>

lemma two_deaths:
  assumes ses: "session2 s r a b" and alive: "IsAlive (heap s b)"
    and e: "valid_enum ks1 s" "valid_enum ks2 s" "valid_enum ks3 s" "valid_enum ks4 s"
    and ma: "ScoreField ma = Some xa" and mb: "ScoreField mb = Some xb"
  shows "\<exists>L. (L = [a, b] \<or> L = [b, a]) \<and>
           handlePlayerDied ks3 ks4 db2 b mb
             (s\<lparr>heap := (heap s)(a := (heap s a)\<lparr>Score := xa, IsAlive := False\<rparr>),
                chans := (chans s)
                  (b := offer (chans s b)
                          (''OPPONENT_UPDATE'', OpponentUpdatePayload xa False))\<rparr>) =
             Done (s\<lparr>heap := (heap s)
                  (a := (heap s a)\<lparr>RoomID := [], IsAlive := True, Score := 0\<rparr>,
                   b := (heap s b)\<lparr>RoomID := [], IsAlive := True, Score := 0\<rparr>),
               chans := (chans s)
                  (a := offer (offer (chans s a)
                                (''OPPONENT_UPDATE'', OpponentUpdatePayload xb False))
                          (''GAME_OVER'',
                           GameOverPayload
                             (winnerId_spec (ID (heap s a)) (sint xa) (ID (heap s b)) (sint xb))
                             (if xa = xb then ''draw'' else ''all_players_died'')),
                   b := offer (offer (chans s b)
                                (''OPPONENT_UPDATE'', OpponentUpdatePayload xa False))
                          (''GAME_OVER'',
                           GameOverPayload
                             (winnerId_spec (ID (heap s a)) (sint xa) (ID (heap s b)) (sint xb))
                             (if xa = xb then ''draw'' else ''all_players_died''))),
               saved := saved s @
                 rowsSaved db2 0
                   (map (\<lambda>c. (ID (heap s c), Name (heap s c), if c = b then xb else xa)) L)\<rparr>)"
proof -
  let ?s1 = "s\<lparr>heap := (heap s)(a := (heap s a)\<lparr>Score := xa, IsAlive := False\<rparr>),
                chans := (chans s)
                  (b := offer (chans s b)
                          (''OPPONENT_UPDATE'', OpponentUpdatePayload xa False))\<rparr>"
  have ne: "a \<noteq> b" using ses by (simp add: session2_def)
  have "session2 (upd a (\<lambda>c. c\<lparr>Score := xa, IsAlive := False\<rparr>) s) r a b"
    by (rule session2_upd [OF ses]) simp_all
  from session2_chans [OF this, of "(chans s)
                  (b := offer (chans s b)
                          (''OPPONENT_UPDATE'', OpponentUpdatePayload xa False))"]
  have ses1: "session2 ?s1 r a b"
    by (simp add: upd_def)
  have dead: "\<not> IsAlive (heap ?s1 a)" by simp
  have v: "valid_enum ks3 ?s1" "valid_enum ks4 ?s1"
    using e by (simp_all add: valid_enum_def)
  from second_death [OF ses1 dead v mb, of db2] obtain L where
    L: "L = [a, b] \<or> L = [b, a]" and
    2: "handlePlayerDied ks3 ks4 db2 b mb ?s1 =
         Done (?s1\<lparr>heap := (heap ?s1)
                  (a := (heap ?s1 a)\<lparr>RoomID := [], IsAlive := True, Score := 0\<rparr>,
                   b := (heap ?s1 b)\<lparr>RoomID := [], IsAlive := True, Score := 0\<rparr>),
               chans := (chans ?s1)
                  (a := offer (offer (chans ?s1 a)
                                (''OPPONENT_UPDATE'', OpponentUpdatePayload xb False))
                          (''GAME_OVER'',
                           GameOverPayload
                             (winnerId_spec (ID (heap ?s1 a)) (sint (Score (heap ?s1 a)))
                                (ID (heap ?s1 b)) (sint xb))
                             (if Score (heap ?s1 a) = xb then ''draw'' else ''all_players_died'')),
                   b := offer (chans ?s1 b)
                          (''GAME_OVER'',
                           GameOverPayload
                             (winnerId_spec (ID (heap ?s1 a)) (sint (Score (heap ?s1 a)))
                                (ID (heap ?s1 b)) (sint xb))
                             (if Score (heap ?s1 a) = xb then ''draw'' else ''all_players_died''))),
               saved := saved ?s1 @
                 rowsSaved db2 0
                   (map (\<lambda>c. (ID (heap ?s1 c), Name (heap ?s1 c),
                          if c = b then xb else Score (heap ?s1 c))) L)\<rparr>)"
    by blast
  show ?thesis
    apply (rule exI [of _ L])
    apply (rule conjI [OF L])
    unfolding 2
    using ne L by auto
qed

lemma both_dead_ab:
  assumes ses: "session2 s r a b" and alive: "IsAlive (heap s b)"
    and e: "valid_enum ks1 s" "valid_enum ks2 s" "valid_enum ks3 s" "valid_enum ks4 s"
    and m1: "Type m1 = ''PLAYER_DIED''" "ScoreField m1 = Some x"
    and m2: "Type m2 = ''PLAYER_DIED''" "ScoreField m2 = Some y"
    and s1: "s1 = state_of (handleMessage ks1 ks2 db1 a m1 s)"
    and s2: "s2 = state_of (handleMessage ks3 ks4 db2 b m2 s1)"
  shows "handleMessage ks1 ks2 db1 a m1 s = Done s1"
    and "handleMessage ks3 ks4 db2 b m2 s1 = Done s2"
    and "s1 = s\<lparr>heap := (heap s)(a := (heap s a)\<lparr>Score := x, IsAlive := False\<rparr>),
                chans := (chans s)
                  (b := offer (chans s b)
                          (''OPPONENT_UPDATE'', OpponentUpdatePayload x False))\<rparr>"
    and "\<exists>L. (L = [a, b] \<or> L = [b, a]) \<and>
          s2 = s\<lparr>heap := (heap s)
                  (a := (heap s a)\<lparr>RoomID := [], IsAlive := True, Score := 0\<rparr>,
                   b := (heap s b)\<lparr>RoomID := [], IsAlive := True, Score := 0\<rparr>),
               chans := (chans s)
                  (a := offer (offer (chans s a)
                                (''OPPONENT_UPDATE'', OpponentUpdatePayload y False))
                          (''GAME_OVER'',
                           GameOverPayload
                             (winnerId_spec (ID (heap s a)) (sint x) (ID (heap s b)) (sint y))
                             (if x = y then ''draw'' else ''all_players_died'')),
                   b := offer (offer (chans s b)
                                (''OPPONENT_UPDATE'', OpponentUpdatePayload x False))
                          (''GAME_OVER'',
                           GameOverPayload
                             (winnerId_spec (ID (heap s a)) (sint x) (ID (heap s b)) (sint y))
                             (if x = y then ''draw'' else ''all_players_died''))),
               saved := saved s @
                 rowsSaved db2 0
                   (map (\<lambda>c. (ID (heap s c), Name (heap s c), if c = b then y else x)) L)\<rparr>"
proof -
  have 1: "handleMessage ks1 ks2 db1 a m1 s =
        Done (s\<lparr>heap := (heap s)(a := (heap s a)\<lparr>Score := x, IsAlive := False\<rparr>),
                chans := (chans s)
                  (b := offer (chans s b)
                          (''OPPONENT_UPDATE'', OpponentUpdatePayload x False))\<rparr>)"
    unfolding handleMessage_PLAYER_DIED [OF m1(1)]
    by (rule first_death [OF ses alive e(1) e(2) m1(2)])
  then show s1': "s1 = s\<lparr>heap := (heap s)(a := (heap s a)\<lparr>Score := x, IsAlive := False\<rparr>),
                chans := (chans s)
                  (b := offer (chans s b)
                          (''OPPONENT_UPDATE'', OpponentUpdatePayload x False))\<rparr>"
    unfolding s1 by simp
  from 1 show "handleMessage ks1 ks2 db1 a m1 s = Done s1"
    unfolding s1 by simp
  from two_deaths [OF ses alive e m1(2) m2(2), of db2] obtain L where
    L: "L = [a, b] \<or> L = [b, a]" and
    2: "handleMessage ks3 ks4 db2 b m2 s1 =
          Done (s\<lparr>heap := (heap s)
                  (a := (heap s a)\<lparr>RoomID := [], IsAlive := True, Score := 0\<rparr>,
                   b := (heap s b)\<lparr>RoomID := [], IsAlive := True, Score := 0\<rparr>),
               chans := (chans s)
                  (a := offer (offer (chans s a)
                                (''OPPONENT_UPDATE'', OpponentUpdatePayload y False))
                          (''GAME_OVER'',
                           GameOverPayload
                             (winnerId_spec (ID (heap s a)) (sint x) (ID (heap s b)) (sint y))
                             (if x = y then ''draw'' else ''all_players_died'')),
                   b := offer (offer (chans s b)
                                (''OPPONENT_UPDATE'', OpponentUpdatePayload x False))
                          (''GAME_OVER'',
                           GameOverPayload
                             (winnerId_spec (ID (heap s a)) (sint x) (ID (heap s b)) (sint y))
                             (if x = y then ''draw'' else ''all_players_died''))),
               saved := saved s @
                 rowsSaved db2 0
                   (map (\<lambda>c. (ID (heap s c), Name (heap s c), if c = b then y else x)) L)\<rparr>)"
    unfolding s1' handleMessage_PLAYER_DIED [OF m2(1)]
    by blast
  from 2 show "handleMessage ks3 ks4 db2 b m2 s1 = Done s2"
    unfolding s2 by simp
  from 2 L show "\<exists>L. (L = [a, b] \<or> L = [b, a]) \<and>
          s2 = s\<lparr>heap := (heap s)
                  (a := (heap s a)\<lparr>RoomID := [], IsAlive := True, Score := 0\<rparr>,
                   b := (heap s b)\<lparr>RoomID := [], IsAlive := True, Score := 0\<rparr>),
               chans := (chans s)
                  (a := offer (offer (chans s a)
                                (''OPPONENT_UPDATE'', OpponentUpdatePayload y False))
                          (''GAME_OVER'',
                           GameOverPayload
                             (winnerId_spec (ID (heap s a)) (sint x) (ID (heap s b)) (sint y))
                             (if x = y then ''draw'' else ''all_players_died'')),
                   b := offer (offer (chans s b)
                                (''OPPONENT_UPDATE'', OpponentUpdatePayload x False))
                          (''GAME_OVER'',
                           GameOverPayload
                             (winnerId_spec (ID (heap s a)) (sint x) (ID (heap s b)) (sint y))
                             (if x = y then ''draw'' else ''all_players_died''))),
               saved := saved s @
                 rowsSaved db2 0
                   (map (\<lambda>c. (ID (heap s c), Name (heap s c), if c = b then y else x)) L)\<rparr>"
    unfolding s2 by auto
qed

lemma buf_offer:
  "buf (offer ch m) = (if length (buf ch) < 256 then buf ch @ [m] else buf ch)"
  by (simp add: offer_def)

lemma inRoom_session2: "session2 inRoom ''r1'' 0 1"
  by (simp add: session2_def inRoom_def mkClient_def emptyChan_def)

lemma inRoom_alive: "IsAlive (heap inRoom 0)" "IsAlive (heap inRoom 1)"
  by (simp_all add: inRoom_def mkClient_def)

lemma inRoom_enums:
  "valid_enum [''guest_a'', ''guest_b''] inRoom" "valid_enum [''guest_b'', ''guest_a''] inRoom"
  by (auto simp: valid_enum_def inRoom_def)

lemma died_fields: "Type (died x) = ''PLAYER_DIED''" "ScoreField (died x) = Some x"
  by (simp_all add: died_def)

lemma both_dead_pq:
  assumes ses: "session2 s r p q" and alive: "IsAlive (heap s q)"
    and e: "valid_enum ks1 s" "valid_enum ks2 s" "valid_enum ks3 s" "valid_enum ks4 s"
    and m1: "Type m1 = ''PLAYER_DIED''" "ScoreField m1 = Some x"
    and m2: "Type m2 = ''PLAYER_DIED''" "ScoreField m2 = Some y"
    and s1: "s1 = state_of (handleMessage ks1 ks2 db1 p m1 s)"
    and s2: "s2 = state_of (handleMessage ks3 ks4 db2 q m2 s1)"
  shows "handleMessage ks1 ks2 db1 p m1 s = Done s1
    \<and> handleMessage ks3 ks4 db2 q m2 s1 = Done s2
    \<and> (\<forall>c. gameOvers (newMsgs c s s1) = [])
    \<and> saved s1 = saved s
    \<and> RoomID (heap s1 p) = r \<and> RoomID (heap s1 q) = r
    \<and> \<not> IsAlive (heap s1 p) \<and> IsAlive (heap s1 q)
    \<and> chans s2 = (chans s1)
         (p := offer (offer (chans s1 p) (''OPPONENT_UPDATE'', OpponentUpdatePayload y False))
                 (''GAME_OVER'',
                  GameOverPayload (winnerId_spec (ID (heap s p)) (sint x) (ID (heap s q)) (sint y))
                    (if x = y then ''draw'' else ''all_players_died'')),
          q := offer (chans s1 q)
                 (''GAME_OVER'',
                  GameOverPayload (winnerId_spec (ID (heap s p)) (sint x) (ID (heap s q)) (sint y))
                    (if x = y then ''draw'' else ''all_players_died'')))
    \<and> (\<forall>c. length (gameOvers (newMsgs c s1 s2)) =
            (if c = p \<and> length (buf (chans s1 p)) < 255
                \<or> c = q \<and> length (buf (chans s1 q)) < 256 then 1 else 0))
    \<and> (saved s2 = saved s @ rowsSaved db2 0
                      [(ID (heap s p), Name (heap s p), x), (ID (heap s q), Name (heap s q), y)]
        \<or> saved s2 = saved s @ rowsSaved db2 0
                      [(ID (heap s q), Name (heap s q), y), (ID (heap s p), Name (heap s p), x)])
    \<and> (\<forall>c. heap s2 c =
            (if c = p \<or> c = q then (heap s c)\<lparr>RoomID := [], IsAlive := True, Score := 0\<rparr>
             else heap s c))"
proof -
  have ne: "p \<noteq> q" and rm: "RoomID (heap s p) = r" "RoomID (heap s q) = r"
    using ses by (simp_all add: session2_def)
  note bd = both_dead_ab [OF ses alive e m1 m2 s1 s2]
  note s1' = bd(3)
  from bd(4) obtain L where L: "L = [p, q] \<or> L = [q, p]" and
    s2': "s2 = s\<lparr>heap := (heap s)
                  (p := (heap s p)\<lparr>RoomID := [], IsAlive := True, Score := 0\<rparr>,
                   q := (heap s q)\<lparr>RoomID := [], IsAlive := True, Score := 0\<rparr>),
               chans := (chans s)
                  (p := offer (offer (chans s p)
                                (''OPPONENT_UPDATE'', OpponentUpdatePayload y False))
                          (''GAME_OVER'',
                           GameOverPayload
                             (winnerId_spec (ID (heap s p)) (sint x) (ID (heap s q)) (sint y))
                             (if x = y then ''draw'' else ''all_players_died'')),
                   q := offer (offer (chans s q)
                                (''OPPONENT_UPDATE'', OpponentUpdatePayload x False))
                          (''GAME_OVER'',
                           GameOverPayload
                             (winnerId_spec (ID (heap s p)) (sint x) (ID (heap s q)) (sint y))
                             (if x = y then ''draw'' else ''all_players_died''))),
               saved := saved s @
                 rowsSaved db2 0
                   (map (\<lambda>c. (ID (heap s c), Name (heap s c), if c = q then y else x)) L)\<rparr>"
    by blast
  have c1: "chans s1 = (chans s)
              (q := offer (chans s q) (''OPPONENT_UPDATE'', OpponentUpdatePayload x False))"
    unfolding s1' by simp
  have 3: "\<forall>c. gameOvers (newMsgs c s s1) = []"
    by (simp add: newMsgs_def gameOvers_def buf_offer c1)
  have 4: "saved s1 = saved s" unfolding s1' by simp
  have 5: "RoomID (heap s1 p) = r \<and> RoomID (heap s1 q) = r
           \<and> \<not> IsAlive (heap s1 p) \<and> IsAlive (heap s1 q)"
    unfolding s1' using ne rm alive by simp
  have 6: "chans s2 = (chans s1)
         (p := offer (offer (chans s1 p) (''OPPONENT_UPDATE'', OpponentUpdatePayload y False))
                 (''GAME_OVER'',
                  GameOverPayload (winnerId_spec (ID (heap s p)) (sint x) (ID (heap s q)) (sint y))
                    (if x = y then ''draw'' else ''all_players_died'')),
          q := offer (chans s1 q)
                 (''GAME_OVER'',
                  GameOverPayload (winnerId_spec (ID (heap s p)) (sint x) (ID (heap s q)) (sint y))
                    (if x = y then ''draw'' else ''all_players_died'')))"
    unfolding s2' c1 using ne by (simp add: fun_upd_twist)
  have 7: "\<forall>c. length (gameOvers (newMsgs c s1 s2)) =
            (if c = p \<and> length (buf (chans s1 p)) < 255
                \<or> c = q \<and> length (buf (chans s1 q)) < 256 then 1 else 0)"
    unfolding newMsgs_def 6 using ne by (simp add: gameOvers_def buf_offer)
  have 8: "saved s2 = saved s @ rowsSaved db2 0
                      [(ID (heap s p), Name (heap s p), x), (ID (heap s q), Name (heap s q), y)]
        \<or> saved s2 = saved s @ rowsSaved db2 0
                      [(ID (heap s q), Name (heap s q), y), (ID (heap s p), Name (heap s p), x)]"
    unfolding s2' using L ne by auto
  have 9: "\<forall>c. heap s2 c =
            (if c = p \<or> c = q then (heap s c)\<lparr>RoomID := [], IsAlive := True, Score := 0\<rparr>
             else heap s c)"
    unfolding s2' by simp
  from bd(1) bd(2) 3 4 5 6 7 8 9 show ?thesis by blast
qed

text \<open>
  A session on which C1 as worded fails. \<open>guest_a\<close> and \<open>guest_b\<close> are
  matched in room \<open>r1\<close>; the send buffer of \<open>guest_b\<close> is full and the database
  is down. \<open>guest_a\<close> dies with score 95, then \<open>guest_b\<close> with score 120. The
  second death resolves the room (both connections are back in no room), but no
  \<open>GAME_OVER\<close> is buffered for \<open>guest_b\<close> (\<open>SendJSON\<close> drops it) and no score
  is persisted (\<open>SaveScore\<close> returns the error, which the handler logs).
\<close>

theorem both_dead_full_buffer_counterexample:
  "valid_enum [''guest_a'', ''guest_b''] inRoomFull
   \<and> panic_of (handleMessage [''guest_a'', ''guest_b''] [''guest_a'', ''guest_b''] dbDown 1 (died 120)
        (state_of (handleMessage [''guest_a'', ''guest_b''] [''guest_a'', ''guest_b''] dbDown 0
           (died 95) inRoomFull))) = None
   \<and> gameOvers (newMsgs 1 inRoomFull
        (state_of (handleMessage [''guest_a'', ''guest_b''] [''guest_a'', ''guest_b''] dbDown 1 (died 120)
           (state_of (handleMessage [''guest_a'', ''guest_b''] [''guest_a'', ''guest_b''] dbDown 0
              (died 95) inRoomFull))))) = []
   \<and> saved (state_of (handleMessage [''guest_a'', ''guest_b''] [''guest_a'', ''guest_b''] dbDown 1 (died 120)
        (state_of (handleMessage [''guest_a'', ''guest_b''] [''guest_a'', ''guest_b''] dbDown 0
           (died 95) inRoomFull)))) = []
   \<and> map (\<lambda>c. RoomID (heap (state_of
        (handleMessage [''guest_a'', ''guest_b''] [''guest_a'', ''guest_b''] dbDown 1 (died 120)
          (state_of (handleMessage [''guest_a'', ''guest_b''] [''guest_a'', ''guest_b''] dbDown 0
             (died 95) inRoomFull)))) c)) [0, 1] = [[], []]"
proof -
  have "valid_enum [''guest_a'', ''guest_b''] inRoomFull"
    by (auto simp: valid_enum_def inRoomFull_def inRoom_def)
  moreover have "panic_of (handleMessage [''guest_a'', ''guest_b''] [''guest_a'', ''guest_b''] dbDown 1 (died 120)
        (state_of (handleMessage [''guest_a'', ''guest_b''] [''guest_a'', ''guest_b''] dbDown 0
           (died 95) inRoomFull))) = None"
    by code_simp
  moreover have "gameOvers (newMsgs 1 inRoomFull
        (state_of (handleMessage [''guest_a'', ''guest_b''] [''guest_a'', ''guest_b''] dbDown 1 (died 120)
           (state_of (handleMessage [''guest_a'', ''guest_b''] [''guest_a'', ''guest_b''] dbDown 0
              (died 95) inRoomFull))))) = []"
    by code_simp
  moreover have "saved (state_of (handleMessage [''guest_a'', ''guest_b''] [''guest_a'', ''guest_b''] dbDown 1 (died 120)
        (state_of (handleMessage [''guest_a'', ''guest_b''] [''guest_a'', ''guest_b''] dbDown 0
           (died 95) inRoomFull)))) = []"
    by code_simp
  moreover have "map (\<lambda>c. RoomID (heap (state_of
        (handleMessage [''guest_a'', ''guest_b''] [''guest_a'', ''guest_b''] dbDown 1 (died 120)
          (state_of (handleMessage [''guest_a'', ''guest_b''] [''guest_a'', ''guest_b''] dbDown 0
             (died 95) inRoomFull)))) c)) [0, 1] = [[], []]"
    by code_simp
  ultimately show ?thesis by blast
qed

text \<open>
  C1. Take a session of two participants \<open>a\<close> and \<open>b\<close>, both alive, and let
  them die one after the other in either order (\<open>p\<close> first with reported score
  \<open>x\<close>, then \<open>q\<close> with \<open>y\<close>), for every order in which the hub's map is ranged
  over and every outcome of the database. Both handler calls return normally. The
  first buffers no \<open>GAME_OVER\<close> for anyone and persists nothing, and the session stays
  active: both are still in room \<open>r\<close> and \<open>q\<close> is alive. The second offers
  exactly one \<open>GAME_OVER\<close> to the send buffer of each participant (to \<open>p\<close> after
  the \<open>OPPONENT_UPDATE\<close> of \<open>q\<close>'s death) and to nobody else; an offered message
  is buffered when the buffer of 256 has room and dropped otherwise, so the number of
  \<open>GAME_OVER\<close> messages buffered by the second call is one or zero per participant
  as stated. Each of the two scores is handed to \<open>SaveScore\<close> once, and persisted
  when its \<open>INSERT\<close> succeeds. Both connections' room identifier, alive flag and
  score are reset, and no other connection is changed.
\<close>

theorem both_dead_resolved_once:
  assumes "session2 s r a b" and "IsAlive (heap s a)" and "IsAlive (heap s b)"
    and "(p, q) = (a, b) \<or> (p, q) = (b, a)"
    and "valid_enum ks1 s" and "valid_enum ks2 s" and "valid_enum ks3 s" and "valid_enum ks4 s"
    and "Type m1 = ''PLAYER_DIED''" and "ScoreField m1 = Some x"
    and "Type m2 = ''PLAYER_DIED''" and "ScoreField m2 = Some y"
    and "s1 = state_of (handleMessage ks1 ks2 db1 p m1 s)"
    and "s2 = state_of (handleMessage ks3 ks4 db2 q m2 s1)"
  shows "handleMessage ks1 ks2 db1 p m1 s = Done s1
    \<and> handleMessage ks3 ks4 db2 q m2 s1 = Done s2
    \<and> (\<forall>c. gameOvers (newMsgs c s s1) = [])
    \<and> saved s1 = saved s
    \<and> RoomID (heap s1 p) = r \<and> RoomID (heap s1 q) = r
    \<and> \<not> IsAlive (heap s1 p) \<and> IsAlive (heap s1 q)
    \<and> chans s2 = (chans s1)
         (p := offer (offer (chans s1 p) (''OPPONENT_UPDATE'', OpponentUpdatePayload y False))
                 (''GAME_OVER'',
                  GameOverPayload (winnerId_spec (ID (heap s p)) (sint x) (ID (heap s q)) (sint y))
                    (if x = y then ''draw'' else ''all_players_died'')),
          q := offer (chans s1 q)
                 (''GAME_OVER'',
                  GameOverPayload (winnerId_spec (ID (heap s p)) (sint x) (ID (heap s q)) (sint y))
                    (if x = y then ''draw'' else ''all_players_died'')))
    \<and> (\<forall>c. length (gameOvers (newMsgs c s1 s2)) =
            (if c = p \<and> length (buf (chans s1 p)) < 255
                \<or> c = q \<and> length (buf (chans s1 q)) < 256 then 1 else 0))
    \<and> (saved s2 = saved s @ rowsSaved db2 0
                      [(ID (heap s p), Name (heap s p), x), (ID (heap s q), Name (heap s q), y)]
        \<or> saved s2 = saved s @ rowsSaved db2 0
                      [(ID (heap s q), Name (heap s q), y), (ID (heap s p), Name (heap s p), x)])
    \<and> (\<forall>c. heap s2 c =
            (if c = p \<or> c = q then (heap s c)\<lparr>RoomID := [], IsAlive := True, Score := 0\<rparr>
             else heap s c))"
proof -
  from assms(4) have "session2 s r p q \<and> IsAlive (heap s q)"
    using assms(1-3) session2_sym [OF assms(1)] by auto
  then have ses: "session2 s r p q" and al: "IsAlive (heap s q)" by simp_all
  show ?thesis
    by (rule both_dead_pq [OF ses al assms(5-14)])
qed

theorem both_dead_resolved_once_witness:
  "session2 inRoom ''r1'' 0 1 \<and> IsAlive (heap inRoom 0) \<and> IsAlive (heap inRoom 1)
   \<and> valid_enum [''guest_a'', ''guest_b''] inRoom \<and> valid_enum [''guest_b'', ''guest_a''] inRoom
   \<and> (\<forall>c. gameOvers (newMsgs c inRoom
        (state_of (handleMessage [''guest_a'', ''guest_b''] [''guest_b'', ''guest_a''] dbUp 1
           (died 95) inRoom))) = [])
   \<and> (\<forall>c. length (gameOvers (newMsgs c
          (state_of (handleMessage [''guest_a'', ''guest_b''] [''guest_b'', ''guest_a''] dbUp 1
             (died 95) inRoom))
          (state_of (handleMessage [''guest_b'', ''guest_a''] [''guest_a'', ''guest_b''] dbUp 0
             (died 120)
             (state_of (handleMessage [''guest_a'', ''guest_b''] [''guest_b'', ''guest_a''] dbUp 1
                (died 95) inRoom)))))) =
          (if c = 0 \<or> c = 1 then 1 else 0))"
proof -
  have o: "(1::nat, 0::nat) = (0, 1) \<or> (1::nat, 0::nat) = (1, 0)" by simp
  have b: "buf (chans inRoom c) = []" for c
    by (simp add: inRoom_def emptyChan_def)
  from both_dead_resolved_once [OF inRoom_session2 inRoom_alive o inRoom_enums(1) inRoom_enums(2)
      inRoom_enums(2) inRoom_enums(1) died_fields [of 95] died_fields [of 120] refl refl,
      of dbUp dbUp]
  have 1: "\<forall>c. gameOvers (newMsgs c inRoom
        (state_of (handleMessage [''guest_a'', ''guest_b''] [''guest_b'', ''guest_a''] dbUp 1
           (died 95) inRoom))) = []"
    and 2: "handleMessage [''guest_a'', ''guest_b''] [''guest_b'', ''guest_a''] dbUp 1
           (died 95) inRoom = Done (state_of (handleMessage [''guest_a'', ''guest_b''] [''guest_b'', ''guest_a''] dbUp 1
           (died 95) inRoom))"
    and 3: "\<forall>c. length (gameOvers (newMsgs c
          (state_of (handleMessage [''guest_a'', ''guest_b''] [''guest_b'', ''guest_a''] dbUp 1
             (died 95) inRoom))
          (state_of (handleMessage [''guest_b'', ''guest_a''] [''guest_a'', ''guest_b''] dbUp 0
             (died 120)
             (state_of (handleMessage [''guest_a'', ''guest_b''] [''guest_b'', ''guest_a''] dbUp 1
                (died 95) inRoom)))))) =
            (if c = 1 \<and> length (buf (chans (state_of (handleMessage [''guest_a'', ''guest_b''] [''guest_b'', ''guest_a''] dbUp 1
             (died 95) inRoom)) 1)) < 255
                \<or> c = 0 \<and> length (buf (chans (state_of (handleMessage [''guest_a'', ''guest_b''] [''guest_b'', ''guest_a''] dbUp 1
             (died 95) inRoom)) 0)) < 256 then 1 else 0)"
    by blast+
  have l: "length (buf (chans (state_of (handleMessage [''guest_a'', ''guest_b''] [''guest_b'', ''guest_a''] dbUp 1
             (died 95) inRoom)) 1)) = 0"
       "length (buf (chans (state_of (handleMessage [''guest_a'', ''guest_b''] [''guest_b'', ''guest_a''] dbUp 1
             (died 95) inRoom)) 0)) = 1"
    by code_simp+
  from 3 have "\<forall>c. length (gameOvers (newMsgs c
          (state_of (handleMessage [''guest_a'', ''guest_b''] [''guest_b'', ''guest_a''] dbUp 1
             (died 95) inRoom))
          (state_of (handleMessage [''guest_b'', ''guest_a''] [''guest_a'', ''guest_b''] dbUp 0
             (died 120)
             (state_of (handleMessage [''guest_a'', ''guest_b''] [''guest_b'', ''guest_a''] dbUp 1
                (died 95) inRoom)))))) =
          (if c = 0 \<or> c = 1 then 1 else 0)"
    unfolding l by auto
  with 1 show ?thesis
    using inRoom_session2 inRoom_alive inRoom_enums by blast
qed

section \<open>The winner rule\<close>

text \<open>
  A session on which C5 as worded fails. \<open>guest_a\<close> and \<open>guest_b\<close> are
  matched in room \<open>r1\<close> and the send buffer of \<open>guest_b\<close> is full. \<open>guest_a\<close>
  dies with score 120, then \<open>guest_b\<close> with score 95. The \<open>GAME_OVER\<close> naming
  \<open>guest_a\<close> is buffered for \<open>guest_a\<close> only: the one for \<open>guest_b\<close> is
  dropped, so the winner is not sent to both.
\<close>

theorem winner_not_sent_to_both_counterexample:
  "valid_enum [''guest_a'', ''guest_b''] inRoomFull
   \<and> gameOvers (newMsgs 0 inRoomFull
        (state_of (handleMessage [''guest_a'', ''guest_b''] [''guest_a'', ''guest_b''] dbUp 1 (died 95)
           (state_of (handleMessage [''guest_a'', ''guest_b''] [''guest_a'', ''guest_b''] dbUp 0
              (died 120) inRoomFull)))))
       = [(''GAME_OVER'', GameOverPayload ''guest_a'' ''all_players_died'')]
   \<and> gameOvers (newMsgs 1 inRoomFull
        (state_of (handleMessage [''guest_a'', ''guest_b''] [''guest_a'', ''guest_b''] dbUp 1 (died 95)
           (state_of (handleMessage [''guest_a'', ''guest_b''] [''guest_a'', ''guest_b''] dbUp 0
              (died 120) inRoomFull))))) = []"
proof -
  have "valid_enum [''guest_a'', ''guest_b''] inRoomFull"
    by (auto simp: valid_enum_def inRoomFull_def inRoom_def)
  moreover have "gameOvers (newMsgs 0 inRoomFull
        (state_of (handleMessage [''guest_a'', ''guest_b''] [''guest_a'', ''guest_b''] dbUp 1 (died 95)
           (state_of (handleMessage [''guest_a'', ''guest_b''] [''guest_a'', ''guest_b''] dbUp 0
              (died 120) inRoomFull)))))
       = [(''GAME_OVER'', GameOverPayload ''guest_a'' ''all_players_died'')]"
    by code_simp
  moreover have "gameOvers (newMsgs 1 inRoomFull
        (state_of (handleMessage [''guest_a'', ''guest_b''] [''guest_a'', ''guest_b''] dbUp 1 (died 95)
           (state_of (handleMessage [''guest_a'', ''guest_b''] [''guest_a'', ''guest_b''] dbUp 0
              (died 120) inRoomFull))))) = []"
    by code_simp
  ultimately show ?thesis by blast
qed

lemma winner_ab:
  assumes ses: "session2 s r a b" and alive: "IsAlive (heap s b)"
    and e: "valid_enum ks1 s" "valid_enum ks2 s" "valid_enum ks3 s" "valid_enum ks4 s"
    and m1: "Type ma = ''PLAYER_DIED''" "ScoreField ma = Some xa"
    and m2: "Type mb = ''PLAYER_DIED''" "ScoreField mb = Some xb"
    and s1: "s1 = state_of (handleMessage ks1 ks2 db1 a ma s)"
    and s2: "s2 = state_of (handleMessage ks3 ks4 db2 b mb s1)"
  shows "handleMessage ks1 ks2 db1 a ma s = Done s1
    \<and> handleMessage ks3 ks4 db2 b mb s1 = Done s2
    \<and> chans s2 = (chans s)
         (a := offer (offer (chans s a) (''OPPONENT_UPDATE'', OpponentUpdatePayload xb False))
                 (''GAME_OVER'',
                  GameOverPayload (winnerId_spec (ID (heap s a)) (sint xa) (ID (heap s b)) (sint xb))
                    (if xa = xb then ''draw'' else ''all_players_died'')),
          b := offer (offer (chans s b) (''OPPONENT_UPDATE'', OpponentUpdatePayload xa False))
                 (''GAME_OVER'',
                  GameOverPayload (winnerId_spec (ID (heap s a)) (sint xa) (ID (heap s b)) (sint xb))
                    (if xa = xb then ''draw'' else ''all_players_died'')))"
proof -
  note bd = both_dead_ab [OF ses alive e m1 m2 s1 s2]
  from bd(4) have "chans s2 = (chans s)
         (a := offer (offer (chans s a) (''OPPONENT_UPDATE'', OpponentUpdatePayload xb False))
                 (''GAME_OVER'',
                  GameOverPayload (winnerId_spec (ID (heap s a)) (sint xa) (ID (heap s b)) (sint xb))
                    (if xa = xb then ''draw'' else ''all_players_died'')),
          b := offer (offer (chans s b) (''OPPONENT_UPDATE'', OpponentUpdatePayload xa False))
                 (''GAME_OVER'',
                  GameOverPayload (winnerId_spec (ID (heap s a)) (sint xa) (ID (heap s b)) (sint xb))
                    (if xa = xb then ''draw'' else ''all_players_died'')))"
    by auto
  with bd(1) bd(2) show ?thesis by blast
qed

text \<open>
  C5. Take a session of two participants \<open>a\<close> and \<open>b\<close>, both alive; \<open>a\<close>
  reports score \<open>xa\<close> at its death and \<open>b\<close> reports \<open>xb\<close>, in either order
  of the two deaths, for every order in which the hub's map is ranged over. After both
  deaths the send buffer of each participant has been offered the other's
  \<open>OPPONENT_UPDATE\<close> and then one \<open>GAME_OVER\<close>, the same for both, whose
  \<open>winnerId\<close> is the spec's rule on exactly these two scores: the identifier of the
  participant with the strictly higher score, and the empty string when the scores are
  equal. The final buffers mention neither the order of the deaths nor the range
  orders. A participant whose buffer had room for two more messages holds exactly this
  one new \<open>GAME_OVER\<close>; a participant whose buffer had not holds none (it is
  dropped), and no other connection is sent one.
\<close>

theorem winner_by_score:
  assumes "session2 s r a b" and "IsAlive (heap s a)" and "IsAlive (heap s b)"
    and "(p, q) = (a, b) \<or> (p, q) = (b, a)"
    and "valid_enum ks1 s" and "valid_enum ks2 s" and "valid_enum ks3 s" and "valid_enum ks4 s"
    and "Type ma = ''PLAYER_DIED''" and "ScoreField ma = Some xa"
    and "Type mb = ''PLAYER_DIED''" and "ScoreField mb = Some xb"
    and "s1 = state_of (handleMessage ks1 ks2 db1 p (if p = a then ma else mb) s)"
    and "s2 = state_of (handleMessage ks3 ks4 db2 q (if q = a then ma else mb) s1)"
  shows "handleMessage ks1 ks2 db1 p (if p = a then ma else mb) s = Done s1
    \<and> handleMessage ks3 ks4 db2 q (if q = a then ma else mb) s1 = Done s2
    \<and> chans s2 = (chans s)
         (a := offer (offer (chans s a) (''OPPONENT_UPDATE'', OpponentUpdatePayload xb False))
                 (''GAME_OVER'',
                  GameOverPayload (winnerId_spec (ID (heap s a)) (sint xa) (ID (heap s b)) (sint xb))
                    (if xa = xb then ''draw'' else ''all_players_died'')),
          b := offer (offer (chans s b) (''OPPONENT_UPDATE'', OpponentUpdatePayload xa False))
                 (''GAME_OVER'',
                  GameOverPayload (winnerId_spec (ID (heap s a)) (sint xa) (ID (heap s b)) (sint xb))
                    (if xa = xb then ''draw'' else ''all_players_died'')))
    \<and> (\<forall>c. gameOvers (newMsgs c s s2) =
            (if (c = a \<or> c = b) \<and> length (buf (chans s c)) < 255
             then [(''GAME_OVER'',
                    GameOverPayload
                      (winnerId_spec (ID (heap s a)) (sint xa) (ID (heap s b)) (sint xb))
                      (if xa = xb then ''draw'' else ''all_players_died''))]
             else []))
    \<and> (sint xb < sint xa \<longrightarrow>
          winnerId_spec (ID (heap s a)) (sint xa) (ID (heap s b)) (sint xb) = ID (heap s a))
    \<and> (sint xa < sint xb \<longrightarrow>
          winnerId_spec (ID (heap s a)) (sint xa) (ID (heap s b)) (sint xb) = ID (heap s b))
    \<and> (xa = xb \<longrightarrow>
          winnerId_spec (ID (heap s a)) (sint xa) (ID (heap s b)) (sint xb) = [])"
proof -
  let ?go = "(''GAME_OVER'',
                  GameOverPayload (winnerId_spec (ID (heap s a)) (sint xa) (ID (heap s b)) (sint xb))
                    (if xa = xb then ''draw'' else ''all_players_died''))"
  let ?ch = "(chans s)
         (a := offer (offer (chans s a) (''OPPONENT_UPDATE'', OpponentUpdatePayload xb False)) ?go,
          b := offer (offer (chans s b) (''OPPONENT_UPDATE'', OpponentUpdatePayload xa False)) ?go)"
  have ne: "a \<noteq> b" using assms(1) by (simp add: session2_def)
  have main: "handleMessage ks1 ks2 db1 p (if p = a then ma else mb) s = Done s1
    \<and> handleMessage ks3 ks4 db2 q (if q = a then ma else mb) s1 = Done s2
    \<and> chans s2 = ?ch"
  proof (cases "(p, q) = (a, b)")
    case True
    then have pq: "p = a" "q = b" by simp_all
    have s1': "s1 = state_of (handleMessage ks1 ks2 db1 a ma s)"
      using assms(13) pq by simp
    have s2': "s2 = state_of (handleMessage ks3 ks4 db2 b mb s1)"
      using assms(14) pq ne by simp
    show ?thesis
      using winner_ab [OF assms(1) assms(3) assms(5-8) assms(9-12) s1' s2'] ne
      unfolding pq by simp
  next
    case False
    with assms(4) have pq: "p = b" "q = a" by auto
    have w: "winnerId_spec (ID (heap s b)) (sint xb) (ID (heap s a)) (sint xa) =
             winnerId_spec (ID (heap s a)) (sint xa) (ID (heap s b)) (sint xb)"
      by (rule winnerId_spec_sym)
    have c: "(if xb = xa then ''draw'' else ''all_players_died'') =
             (if xa = xb then ''draw'' else ''all_players_died'')"
      by auto
    have s1': "s1 = state_of (handleMessage ks1 ks2 db1 b mb s)"
      using assms(13) pq ne by simp
    have s2': "s2 = state_of (handleMessage ks3 ks4 db2 a ma s1)"
      using assms(14) pq by simp
    show ?thesis
      using winner_ab [OF session2_sym [OF assms(1)] assms(2) assms(5-8) assms(11,12) assms(9,10)
          s1' s2'] ne
      unfolding pq w c by (simp add: fun_upd_twist)
  qed
  then have ch: "chans s2 = ?ch" by blast
  have 4: "\<forall>c. gameOvers (newMsgs c s s2) =
            (if (c = a \<or> c = b) \<and> length (buf (chans s c)) < 255 then [?go] else [])"
    unfolding newMsgs_def ch using ne by (simp add: gameOvers_def buf_offer)
  have 5: "(sint xb < sint xa \<longrightarrow>
          winnerId_spec (ID (heap s a)) (sint xa) (ID (heap s b)) (sint xb) = ID (heap s a))
    \<and> (sint xa < sint xb \<longrightarrow>
          winnerId_spec (ID (heap s a)) (sint xa) (ID (heap s b)) (sint xb) = ID (heap s b))
    \<and> (xa = xb \<longrightarrow>
          winnerId_spec (ID (heap s a)) (sint xa) (ID (heap s b)) (sint xb) = [])"
    by (simp add: winnerId_spec_def)
  from main 4 5 show ?thesis by blast
qed

theorem winner_by_score_witness:
  "session2 inRoom ''r1'' 0 1 \<and> IsAlive (heap inRoom 0) \<and> IsAlive (heap inRoom 1)
   \<and> valid_enum [''guest_a'', ''guest_b''] inRoom \<and> valid_enum [''guest_b'', ''guest_a''] inRoom
   \<and> (\<forall>c. gameOvers (newMsgs c inRoom
          (state_of (handleMessage [''guest_b'', ''guest_a''] [''guest_a'', ''guest_b''] dbUp 0
             (died 120)
             (state_of (handleMessage [''guest_a'', ''guest_b''] [''guest_b'', ''guest_a''] dbUp 1
                (died 95) inRoom))))) =
          (if c = 0 \<or> c = 1
           then [(''GAME_OVER'', GameOverPayload ''guest_a'' ''all_players_died'')] else []))"
proof -
  have o: "(1::nat, 0::nat) = (0, 1) \<or> (1::nat, 0::nat) = (1, 0)" by simp
  have i: "ID (heap inRoom 0) = ''guest_a''" "ID (heap inRoom 1) = ''guest_b''"
    by (simp_all add: inRoom_def mkClient_def)
  have b: "buf (chans inRoom c) = []" for c
    by (simp add: inRoom_def emptyChan_def)
  have w: "winnerId_spec ''guest_a'' (sint (120 :: goint)) ''guest_b'' (sint (95 :: goint)) = ''guest_a''"
    by (simp add: winnerId_spec_def)
  have ne: "(120 :: goint) \<noteq> 95" by simp
  from winner_by_score [OF inRoom_session2 inRoom_alive o inRoom_enums(1) inRoom_enums(2)
      inRoom_enums(2) inRoom_enums(1) died_fields [of 120] died_fields [of 95] refl refl,
      of dbUp dbUp]
  have "\<forall>c. gameOvers (newMsgs c inRoom
          (state_of (handleMessage [''guest_b'', ''guest_a''] [''guest_a'', ''guest_b''] dbUp 0
             (died 120)
             (state_of (handleMessage [''guest_a'', ''guest_b''] [''guest_b'', ''guest_a''] dbUp 1
                (died 95) inRoom))))) =
          (if c = 0 \<or> c = 1
           then [(''GAME_OVER'', GameOverPayload ''guest_a'' ''all_players_died'')] else [])"
    unfolding i w b using ne by simp
  then show ?thesis
    using inRoom_session2 inRoom_alive inRoom_enums by blast
qed

section \<open>Leaving a game\<close>









section \<open>Score reports\<close>

lemma updateScore_fields: "Type (updateScore x) = ''UPDATE_SCORE''" "ScoreField (updateScore x) = Some x"
  by (simp_all add: updateScore_def)

lemma handleMessage_UPDATE_SCORE:
  "Type m = ''UPDATE_SCORE'' \<Longrightarrow>
   handleMessage ks1 ks2 db c m s = handleUpdateScore ks1 c m s"
  by (simp add: handleMessage_def)

text \<open>
  C7. The handler has no room check in its \<open>UPDATE_SCORE\<close> and \<open>PLAYER_DIED\<close>
  cases (the \<open>LEAVE_GAME\<close> case has one), and \<open>GetClientsInRoom\<close> of the empty
  room identifier returns every registered connection that is in no room. With
  \<open>guest_a\<close> and \<open>guest_b\<close> both registered and in no room, their send buffers
  empty: an \<open>UPDATE_SCORE {score: 10}\<close> from \<open>guest_a\<close> changes its score from 0
  to 10 and buffers an \<open>OPPONENT_UPDATE\<close> for \<open>guest_b\<close>, which the write pump
  of \<open>guest_b\<close> then writes to its socket; a \<open>PLAYER_DIED {score: 7}\<close> from
  \<open>guest_a\<close> clears its alive flag and buffers an \<open>OPPONENT_UPDATE\<close> for
  \<open>guest_b\<close>.
\<close>

theorem not_in_room_not_ignored:
  "RoomID (heap inLobby 0) = []
   \<and> Score (heap inLobby 0) = 0
   \<and> buf (chans inLobby 1) = []
   \<and> Score (heap (state_of (handleMessage [''guest_a'', ''guest_b''] [''guest_a'', ''guest_b''] dbUp 0
                     (updateScore 10) inLobby)) 0) = 10
   \<and> buf (chans (state_of (handleMessage [''guest_a'', ''guest_b''] [''guest_a'', ''guest_b''] dbUp 0
             (updateScore 10) inLobby)) 1)
       = [(''OPPONENT_UPDATE'', OpponentUpdatePayload 10 True)]
   \<and> written (state_of (run [Recv [''guest_a'', ''guest_b''] [''guest_a'', ''guest_b''] dbUp 0
                                (updateScore 10), Write 1] inLobby))
       = [(1, ''OPPONENT_UPDATE'', OpponentUpdatePayload 10 True)]
   \<and> IsAlive (heap inLobby 0)
   \<and> \<not> IsAlive (heap (state_of (handleMessage [''guest_a'', ''guest_b''] [''guest_a'', ''guest_b''] dbUp 0
                         (died 7) inLobby)) 0)
   \<and> buf (chans (state_of (handleMessage [''guest_a'', ''guest_b''] [''guest_a'', ''guest_b''] dbUp 0
             (died 7) inLobby)) 1)
       = [(''OPPONENT_UPDATE'', OpponentUpdatePayload 7 False)]"
  by code_simp

text \<open>
  C2. The anti-cheat test subtracts in 64-bit arithmetic, so the difference wraps.
  After \<open>guest_a\<close>'s report of \<open>-9223372036854775808\<close> has been accepted (its
  difference to the score 0 is not above 50), a report of 100 exceeds the stored score
  plus 50, yet the wrapped difference is negative: the report is accepted, the stored
  score becomes 100 and the opponent is sent the new score 100, not the last accepted
  one.
\<close>

theorem score_jump_accepted_on_overflow:
  "sint (Score (heap (state_of (handleMessage [''guest_a'', ''guest_b''] [''guest_a'', ''guest_b''] dbUp 0
                        (updateScore (- 9223372036854775808)) inRoom)) 0))
     = - 9223372036854775808
   \<and> sint (Score (heap (state_of (handleMessage [''guest_a'', ''guest_b''] [''guest_a'', ''guest_b''] dbUp 0
                        (updateScore (- 9223372036854775808)) inRoom)) 0)) + 50 < sint (100 :: goint)
   \<and> Score (heap (state_of (handleMessage [''guest_a'', ''guest_b''] [''guest_a'', ''guest_b''] dbUp 0
                    (updateScore 100)
                    (state_of (handleMessage [''guest_a'', ''guest_b''] [''guest_a'', ''guest_b''] dbUp 0
                        (updateScore (- 9223372036854775808)) inRoom)))) 0) = 100
   \<and> newMsgs 1 (state_of (handleMessage [''guest_a'', ''guest_b''] [''guest_a'', ''guest_b''] dbUp 0
                        (updateScore (- 9223372036854775808)) inRoom))
        (state_of (handleMessage [''guest_a'', ''guest_b''] [''guest_a'', ''guest_b''] dbUp 0
                    (updateScore 100)
                    (state_of (handleMessage [''guest_a'', ''guest_b''] [''guest_a'', ''guest_b''] dbUp 0
                        (updateScore (- 9223372036854775808)) inRoom))))
      = [(''OPPONENT_UPDATE'', OpponentUpdatePayload 100 True)]"
  by code_simp

text \<open>
  C10. The same wrap-around in the other direction: with stored score 1, a report of
  \<open>-9223372036854775808\<close> is at most the stored score plus 50, yet the wrapped
  difference is \<open>9223372036854775807\<close>, above 50: the report is rejected, the stored
  score stays 1 and the opponent is re-sent the score 1.
\<close>

theorem score_drop_rejected_on_overflow:
  "Score (heap (state_of (handleMessage [''guest_a'', ''guest_b''] [''guest_a'', ''guest_b''] dbUp 0
                    (updateScore 1) inRoom)) 0) = 1
   \<and> sint (- 9223372036854775808 :: goint) \<le> sint (1 :: goint) + 50
   \<and> Score (heap (state_of (handleMessage [''guest_a'', ''guest_b''] [''guest_a'', ''guest_b''] dbUp 0
                    (updateScore (- 9223372036854775808))
                    (state_of (handleMessage [''guest_a'', ''guest_b''] [''guest_a'', ''guest_b''] dbUp 0
                        (updateScore 1) inRoom)))) 0) = 1
   \<and> newMsgs 1 (state_of (handleMessage [''guest_a'', ''guest_b''] [''guest_a'', ''guest_b''] dbUp 0
                    (updateScore 1) inRoom))
        (state_of (handleMessage [''guest_a'', ''guest_b''] [''guest_a'', ''guest_b''] dbUp 0
                    (updateScore (- 9223372036854775808))
                    (state_of (handleMessage [''guest_a'', ''guest_b''] [''guest_a'', ''guest_b''] dbUp 0
                        (updateScore 1) inRoom))))
      = [(''OPPONENT_UPDATE'', OpponentUpdatePayload 1 True)]"
  by code_simp

subsection \<open>The anti-cheat test where the difference does not overflow\<close>

text \<open>
  When the mathematical difference of the reported and the stored score fits 64 bits
  (in particular whenever both scores are non-negative), the test is the comparison it is
  meant to be: in a session of two, a report above the stored score plus 50 leaves the
  stored score alone and offers the opponent's send buffer the stored score and alive
  flag, and a report of at most the stored score plus 50, lower and negative reports
  included, is stored and offered to the opponent's send buffer.
\<close>

lemma sint_diff_in_range:
  fixes x y :: goint
  assumes "- (2 ^ 63) \<le> sint x - sint y" and "sint x - sint y < 2 ^ 63"
  shows "sint (x - y) = sint x - sint y"
  using assms by (simp add: sint_word_ariths signed_take_bit_int_eq_self)

lemma update_score_rejected_in_range:
  assumes ses: "session2 s r a b" and e: "valid_enum ks1 s"
    and m: "Type m = ''UPDATE_SCORE''" "ScoreField m = Some x"
    and big: "sint (Score (heap s a)) + 50 < sint x"
    and fits: "sint x - sint (Score (heap s a)) < 2 ^ 63"
  shows "handleMessage ks1 ks2 db a m s =
           Done (s\<lparr>chans := (chans s)
                   (b := offer (chans s b)
                           (''OPPONENT_UPDATE'',
                            OpponentUpdatePayload (Score (heap s a)) (IsAlive (heap s a))))\<rparr>)"
proof -
  have d: "sint (x - Score (heap s a)) = sint x - sint (Score (heap s a))"
    using big fits by (intro sint_diff_in_range) simp_all
  show ?thesis
    unfolding handleMessage_UPDATE_SCORE [OF m(1)]
    using d big m(2) by (simp add: handleUpdateScore_def session2_notify [OF ses e])
qed

lemma update_score_accepted_in_range:
  assumes ses: "session2 s r a b" and e: "valid_enum ks1 s"
    and m: "Type m = ''UPDATE_SCORE''" "ScoreField m = Some x"
    and small: "sint x \<le> sint (Score (heap s a)) + 50"
    and fits: "- (2 ^ 63) \<le> sint x - sint (Score (heap s a))"
  shows "handleMessage ks1 ks2 db a m s =
           Done (s\<lparr>heap := (heap s)(a := (heap s a)\<lparr>Score := x\<rparr>),
                  chans := (chans s)
                   (b := offer (chans s b)
                           (''OPPONENT_UPDATE'', OpponentUpdatePayload x (IsAlive (heap s a))))\<rparr>)"
proof -
  let ?s1 = "upd a (\<lambda>c. c\<lparr>Score := x\<rparr>) s"
  have d: "sint (x - Score (heap s a)) = sint x - sint (Score (heap s a))"
    using small fits by (intro sint_diff_in_range) simp_all
  have ses1: "session2 ?s1 r a b" by (rule session2_upd [OF ses]) simp_all
  have v1: "valid_enum ks1 ?s1" using e by (simp add: valid_enum_def)
  show ?thesis
    unfolding handleMessage_UPDATE_SCORE [OF m(1)]
    using d small m(2)
    by (simp add: handleUpdateScore_def Let_def session2_notify [OF ses1 v1])
qed

section \<open>Invariants of the running server\<close>

subsection \<open>What the handler keeps\<close>

lemma keeps_refl [simp]: "keeps s s"
  by (simp add: keeps_def)

lemma keeps_trans: "keeps s t \<Longrightarrow> keeps t u \<Longrightarrow> keeps s u"
  by (simp add: keeps_def)

lemma keeps_heap_eq:
  "heap t = heap s \<Longrightarrow> queue t = queue s \<Longrightarrow> waiting t = waiting s \<Longrightarrow> keeps s t"
  by (simp add: keeps_def)

lemma keeps_queue_inv: "keeps s t \<Longrightarrow> queue_inv s \<Longrightarrow> queue_inv t"
  by (simp add: keeps_def queue_inv_def held_def)

lemma keeps_andThen:
  assumes "keeps s (state_of r)" and "\<And>u. r = Done u \<Longrightarrow> keeps u (state_of (f u))"
  shows "keeps s (state_of (andThen r f))"
proof (cases r)
  case (Done u)
  with assms(1) have "keeps s u" by simp
  moreover have "keeps u (state_of (f u))" by (rule assms(2) [OF Done])
  ultimately show ?thesis using Done by (simp add: keeps_trans)
next
  case (Panic p u)
  with assms(1) show ?thesis by simp
qed

lemma keeps_notify: "keeps s (state_of (notifyOpponent ks c t p s))"
  by (rule keeps_heap_eq) simp_all

lemma keeps_gameOverLoop: "keeps s (state_of (gameOverLoop w d cs s))"
  by (rule keeps_heap_eq) simp_all

lemma keeps_saveLoop: "keeps s (saveLoop db k cs s)"
  by (rule keeps_heap_eq) simp_all

lemma keeps_cleanupLoop: "keeps s (cleanupLoop cs s)"
  by (simp add: keeps_def heap_cleanupLoop)

lemma keeps_upd:
  assumes "InQueue (f (heap s a)) = InQueue (heap s a)"
    and "RoomID (heap s a) = [] \<Longrightarrow> RoomID (f (heap s a)) = []"
  shows "keeps s (upd a f s)"
  using assms by (simp add: keeps_def upd_def)

lemma keeps_upd_in_room: "RoomID (heap s a) \<noteq> [] \<Longrightarrow> keeps s (upd a f s)"
  by (simp add: keeps_def upd_def)

lemma keeps_handleUpdateScore: "keeps s (state_of (handleUpdateScore ks1 c m s))"
proof (cases "ScoreField m")
  case None
  then show ?thesis by (simp add: handleUpdateScore_def)
next
  case (Some x)
  have "keeps s (state_of (notifyOpponent ks1 c t p (upd c (\<lambda>c. c\<lparr>Score := x\<rparr>) s)))" for t p
    by (rule keeps_trans [OF keeps_upd keeps_notify]) simp_all
  with Some show ?thesis
    by (simp add: handleUpdateScore_def Let_def keeps_notify)
qed

lemma keeps_handlePlayerDied: "keeps s (state_of (handlePlayerDied ks1 ks2 db c m s))"
proof (cases "ScoreField m")
  case None
  then show ?thesis by (simp add: handlePlayerDied_def)
next
  case (Some x)
  let ?s1 = "upd c (\<lambda>c. c\<lparr>Score := x, IsAlive := False\<rparr>) s"
  have 1: "keeps s ?s1" by (rule keeps_upd) simp_all
  have 2: "keeps u (state_of
              (andThen (gameOverLoop w d cs u)
                 (\<lambda>s3. Done (cleanupLoop cs (saveLoop db 0 cs s3)))))" for u w d cs
    by (rule keeps_andThen [OF keeps_gameOverLoop])
       (simp add: keeps_trans [OF keeps_saveLoop keeps_cleanupLoop])
  have "keeps ?s1 (state_of (handlePlayerDied ks1 ks2 db c m s))"
    using Some unfolding handlePlayerDied_def
    by (simp add: Let_def del: upd_simps) (rule keeps_andThen [OF keeps_notify], simp add: 2 Let_def)
  with 1 show ?thesis by (rule keeps_trans)
qed

lemma keeps_handleLeaveGame: "keeps s (state_of (handleLeaveGame ks1 db c s))"
proof (cases "RoomID (heap s c) = []")
  case True
  then show ?thesis by (simp add: handleLeaveGame_def)
next
  case False
  let ?s1 = "SaveScore (db 0) (ID (heap s c)) (Name (heap s c)) (Score (heap s c)) s"
  let ?n = "notifyOpponent ks1 c ''OPPONENT_LEFT''
              (OpponentUpdatePayload (Score (heap ?s1 c)) False) ?s1"
  have h: "handleLeaveGame ks1 db c s =
             andThen ?n (\<lambda>s2. Done (upd c
                (\<lambda>c. c\<lparr>RoomID := [], IsAlive := True, Score := 0, InQueue := False\<rparr>) s2))"
    using False by (simp add: handleLeaveGame_def Let_def)
  have 1: "keeps s ?s1" by (rule keeps_heap_eq) simp_all
  have 2: "keeps ?s1 (state_of (handleLeaveGame ks1 db c s))"
    unfolding h
  proof (rule keeps_andThen [OF keeps_notify])
    fix u assume "?n = Done u"
    then have "state_of ?n = u" by simp
    then have "heap u = heap s" by auto
    with False have "RoomID (heap u c) \<noteq> []" by simp
    then show "keeps u (state_of (Done (upd c
                (\<lambda>c. c\<lparr>RoomID := [], IsAlive := True, Score := 0, InQueue := False\<rparr>) u)))"
      by (simp add: keeps_upd_in_room del: upd_simps)
  qed
  from 1 2 show ?thesis by (rule keeps_trans)
qed

lemma handleJoinQueue_fields:
  "RoomID (heap (handleJoinQueue c m s) n) = RoomID (heap s n)"
  "InQueue (heap s n) \<Longrightarrow> InQueue (heap (handleJoinQueue c m s) n)"
  "waiting (handleJoinQueue c m s) = waiting s"
  by (auto simp: handleJoinQueue_def Let_def AddToQueue_def)

lemma handleJoinQueue_queue:
  "queue (handleJoinQueue c m s) =
     (if \<not> InQueue (heap s c) \<and> RoomID (heap s c) = [] then queue s @ [c] else queue s)"
  "\<not> InQueue (heap s c) \<and> RoomID (heap s c) = [] \<Longrightarrow> InQueue (heap (handleJoinQueue c m s) c)"
  "InQueue (heap s c) \<or> RoomID (heap s c) \<noteq> [] \<Longrightarrow> handleJoinQueue c m s = s"
  by (auto simp: handleJoinQueue_def Let_def AddToQueue_def)

lemma handleMessage_JOIN_QUEUE:
  "Type m = ''JOIN_QUEUE'' \<Longrightarrow> handleMessage ks1 ks2 db c m s = Done (handleJoinQueue c m s)"
  by (simp add: handleMessage_def)

lemma queue_inv_handleJoinQueue:
  assumes "queue_inv s"
  shows "queue_inv (handleJoinQueue c m s)"
proof (cases "\<not> InQueue (heap s c) \<and> RoomID (heap s c) = []")
  case True
  then have notin: "c \<notin> set (held s)" using assms by (auto simp: queue_inv_def)
  have h: "held (handleJoinQueue c m s) =
             queue s @ [c] @ (case waiting s of None \<Rightarrow> [] | Some w \<Rightarrow> [w])"
    using True by (simp add: held_def handleJoinQueue_queue handleJoinQueue_fields)
  have d: "distinct (held (handleJoinQueue c m s))"
    using assms notin unfolding h by (auto simp: queue_inv_def held_def split: option.splits)
  have "set (held (handleJoinQueue c m s)) = insert c (set (held s))"
    unfolding h by (auto simp: held_def)
  then show ?thesis
    using d assms handleJoinQueue_fields(2) [of s _ c m] handleJoinQueue_queue(2) [of s c m] True
    by (auto simp: queue_inv_def handleJoinQueue_fields(1))
next
  case False
  then show ?thesis using assms by (simp add: handleJoinQueue_queue(3))
qed

lemma queue_inv_handleMessage:
  assumes "queue_inv s"
  shows "queue_inv (state_of (handleMessage ks1 ks2 db c m s))"
  using assms
  by (auto simp: handleMessage_def queue_inv_handleJoinQueue
        intro: keeps_queue_inv [OF keeps_handleUpdateScore]
               keeps_queue_inv [OF keeps_handlePlayerDied]
               keeps_queue_inv [OF keeps_handleLeaveGame])

subsection \<open>What the matchmaker and the hub keep\<close>

lemma queue_inv_imp_queue_inv1: "queue_inv s \<Longrightarrow> queue_inv1 s"
  by (simp add: queue_inv_def queue_inv1_def held_def)

lemma queue_inv_Run_iter:
  assumes inv: "queue_inv s"
  shows "case Run_iter rs s of Done t \<Rightarrow> queue_inv t | Panic p t \<Rightarrow> queue_inv1 t"
proof (cases "queue s")
  case Nil
  then show ?thesis using inv by (simp add: Run_iter_def)
next
  case (Cons x rest)
  show ?thesis
  proof (cases "waiting s")
    case None
    with Cons inv show ?thesis
      by (auto simp: Run_iter_def Run_body_def queue_inv_def held_def)
  next
    case (Some w)
    let ?s' = "s\<lparr>queue := rest\<rparr>"
    note f = createMatch_frame(1-3) [of rs w x ?s']
    have d: "distinct (x # rest @ [w])"
      and fl: "\<forall>c \<in> set rest. InQueue (heap s c) \<and> RoomID (heap s c) = []"
      using inv Cons Some by (auto simp: queue_inv_def held_def)
    show ?thesis
    proof (cases "createMatch rs w x ?s'")
      case (Done u)
      with f have u: "heap u = heap (assignRoom (fst rs) x (assignRoom (fst rs) w ?s'))"
        "waiting u = Some w" "queue u = rest"
        using Some by simp_all
      have "queue_inv (u\<lparr>waiting := None\<rparr>)"
        using d fl unfolding queue_inv_def held_def u by (auto simp: u)
      then show ?thesis
        using Cons Some Done by (simp add: Run_iter_def Run_body_def)
    next
      case (Panic p u)
      with f have u: "heap u = heap (assignRoom (fst rs) x (assignRoom (fst rs) w ?s'))"
        "waiting u = Some w" "queue u = rest"
        using Some by simp_all
      have "queue_inv1 u"
        using d fl unfolding queue_inv1_def held_def u by (auto simp: u)
      then show ?thesis
        using Cons Some Panic by (simp add: Run_iter_def Run_body_def)
    qed
  qed
qed

lemma queue_inv_cong:
  "heap s' = heap s \<Longrightarrow> queue s' = queue s \<Longrightarrow> waiting s' = waiting s \<Longrightarrow>
   queue_inv s' = queue_inv s"
  by (simp add: queue_inv_def held_def)

lemma queue_inv_Register: "queue_inv (Register c s) = queue_inv s"
  by (rule queue_inv_cong) (simp_all add: Register_def)

lemma queue_inv_WritePump_iter: "queue_inv (WritePump_iter c s) = queue_inv s"
  by (rule queue_inv_cong) (simp_all add: WritePump_iter_def split: list.split)

lemma queue_inv_Unregister: "queue_inv (state_of (Unregister c s)) = queue_inv s"
  by (rule queue_inv_cong) (simp_all add: Unregister_def Let_def split: option.split)

lemma queue_inv_step:
  assumes "queue_inv s"
  shows "case step e s of Done t \<Rightarrow> queue_inv t | Panic p t \<Rightarrow> queue_inv1 t"
proof (cases e)
  case (Recv ks1 ks2 db c m)
  then show ?thesis using assms by (simp add: queue_inv_handleMessage)
next
  case (Pair rs)
  then show ?thesis using queue_inv_Run_iter [OF assms] by simp
next
  case (Reg c)
  then show ?thesis using assms by (simp add: queue_inv_Register)
next
  case (Unreg c)
  then show ?thesis
    using assms queue_inv_Unregister [of c s]
    by (cases "Unregister c s") (simp_all add: queue_inv_imp_queue_inv1)
next
  case (Write c)
  then show ?thesis using assms by (simp add: queue_inv_WritePump_iter)
qed

lemma queue_inv_run:
  "queue_inv s \<Longrightarrow> case run evs s of Done t \<Rightarrow> queue_inv t | Panic p t \<Rightarrow> queue_inv1 t"
proof (induction evs arbitrary: s)
  case Nil
  then show ?case by simp
next
  case (Cons e es)
  from queue_inv_step [OF Cons.prems, of e] show ?case
    by (cases "step e s") (simp_all add: Cons.IH)
qed

lemma joinQueue_Type: "Type (joinQueue n) = ''JOIN_QUEUE''"
  by (simp add: joinQueue_def)

text \<open>
  C9. Starting from a server whose matchmaker holds nobody, after any sequence of
  events (messages handled for any connections, iterations of the matchmaker's loop,
  registrations and unregistrations, iterations of write pumps) no connection is held
  by the matchmaker twice (channel and waiting slot together), and every connection it
  holds has its in-queue flag set and no room: a connection is enqueued at most once
  until it is matched, and can only be enqueued again after \<open>createMatch\<close> has
  cleared the flag and a leave or a resolution has cleared the room. This holds of
  every state of the running server; in the state in which a panic of the matchmaker
  or the hub has ended the process, it holds of the connections in the channel (the
  waiting slot then still names the connection whose match was being created). In any
  state \<open>t\<close>, \<open>JOIN_QUEUE\<close> from a connection whose in-queue flag is set or whose
  room identifier is non-empty returns with nothing changed; otherwise it returns
  having appended the connection to the channel once and set the flag.
\<close>

theorem enqueued_at_most_once:
  assumes "queue s = []" and "waiting s = None"
  shows "distinct (held (state_of (run evs s)))
       \<and> (panic_of (run evs s) = None \<longrightarrow>
            (\<forall>c \<in> set (held (state_of (run evs s))).
               InQueue (heap (state_of (run evs s)) c) \<and> RoomID (heap (state_of (run evs s)) c) = []))
       \<and> (\<forall>c \<in> set (queue (state_of (run evs s))).
            InQueue (heap (state_of (run evs s)) c) \<and> RoomID (heap (state_of (run evs s)) c) = [])
       \<and> (Type m = ''JOIN_QUEUE'' \<and> (InQueue (heap t c) \<or> RoomID (heap t c) \<noteq> []) \<longrightarrow>
            handleMessage ks1 ks2 db c m t = Done t)
       \<and> (Type m = ''JOIN_QUEUE'' \<and> \<not> InQueue (heap t c) \<and> RoomID (heap t c) = [] \<longrightarrow>
            handleMessage ks1 ks2 db c m t = Done (state_of (handleMessage ks1 ks2 db c m t))
          \<and> queue (state_of (handleMessage ks1 ks2 db c m t)) = queue t @ [c]
          \<and> InQueue (heap (state_of (handleMessage ks1 ks2 db c m t)) c))"
proof -
  have "queue_inv s" using assms by (simp add: queue_inv_def held_def)
  from queue_inv_run [OF this, of evs]
  have 1: "distinct (held (state_of (run evs s)))
       \<and> (panic_of (run evs s) = None \<longrightarrow>
            (\<forall>c \<in> set (held (state_of (run evs s))).
               InQueue (heap (state_of (run evs s)) c) \<and> RoomID (heap (state_of (run evs s)) c) = []))
       \<and> (\<forall>c \<in> set (queue (state_of (run evs s))).
            InQueue (heap (state_of (run evs s)) c) \<and> RoomID (heap (state_of (run evs s)) c) = [])"
    by (cases "run evs s") (auto simp: queue_inv_def queue_inv1_def held_def)
  have 2: "Type m = ''JOIN_QUEUE'' \<and> (InQueue (heap t c) \<or> RoomID (heap t c) \<noteq> []) \<longrightarrow>
            handleMessage ks1 ks2 db c m t = Done t"
    by (auto simp: handleMessage_def handleJoinQueue_queue(3))
  have 3: "Type m = ''JOIN_QUEUE'' \<and> \<not> InQueue (heap t c) \<and> RoomID (heap t c) = [] \<longrightarrow>
            handleMessage ks1 ks2 db c m t = Done (state_of (handleMessage ks1 ks2 db c m t))
          \<and> queue (state_of (handleMessage ks1 ks2 db c m t)) = queue t @ [c]
          \<and> InQueue (heap (state_of (handleMessage ks1 ks2 db c m t)) c)"
    by (auto simp: handleMessage_JOIN_QUEUE handleJoinQueue_queue)
  from 1 2 3 show ?thesis by blast
qed

theorem enqueued_at_most_once_witness:
  "queue inLobby = [] \<and> waiting inLobby = None
   \<and> \<not> InQueue (heap inLobby 0) \<and> RoomID (heap inLobby 0) = []
   \<and> InQueue (heap (state_of (handleMessage [] [] dbUp 0 (joinQueue ''A'') inLobby)) 0)
   \<and> queue (state_of (handleMessage [] [] dbUp 0 (joinQueue ''A'') inLobby)) = queue inLobby @ [0]
   \<and> handleMessage [] [] dbUp 0 (joinQueue ''A'')
        (state_of (handleMessage [] [] dbUp 0 (joinQueue ''A'') inLobby))
       = Done (state_of (handleMessage [] [] dbUp 0 (joinQueue ''A'') inLobby))
   \<and> distinct (held (state_of (run [Recv [] [] dbUp 0 (joinQueue ''A''),
                          Recv [] [] dbUp 0 (joinQueue ''A''),
                          Pair (''r2'', 7), Recv [] [] dbUp 1 (joinQueue ''B'')] inLobby)))"
proof -
  have q: "queue inLobby = []" "waiting inLobby = None"
    by (simp_all add: inLobby_def)
  have f: "\<not> InQueue (heap inLobby 0)" "RoomID (heap inLobby 0) = []"
    by (simp_all add: inLobby_def mkClient_def)
  note a = enqueued_at_most_once [OF q, where m = "joinQueue ''A''" and t = inLobby and c = 0
      and ?ks1.0 = "[]" and ?ks2.0 = "[]" and db = dbUp
      and evs = "[Recv [] [] dbUp 0 (joinQueue ''A''), Recv [] [] dbUp 0 (joinQueue ''A''),
                          Pair (''r2'', 7), Recv [] [] dbUp 1 (joinQueue ''B'')]"]
  note b = enqueued_at_most_once [OF q, where m = "joinQueue ''A''"
      and t = "state_of (handleMessage [] [] dbUp 0 (joinQueue ''A'') inLobby)" and c = 0
      and ?ks1.0 = "[]" and ?ks2.0 = "[]" and db = dbUp and evs = "[]"]
  from a b show ?thesis
    using q f joinQueue_Type by blast
qed

section \<open>The outcome of a room\<close>

lemma topScore_ge_head: "x \<le> topScore (x # xs)"
  by (cases xs) simp_all

lemma topScore_skip_low: "m < x \<Longrightarrow> topScore (m # x # xs) = topScore (x # xs)"
  using topScore_ge_head [of x xs] by simp

lemma topScore_skip_second: "x \<le> m \<Longrightarrow> topScore (m # x # xs) = topScore (m # xs)"
  by (cases xs) (simp_all add: max_def)

lemma count_list_ge_2: "Suc 0 \<le> count_list xs x \<longleftrightarrow> x \<in> set xs"
  using count_list_0_iff [of xs x] by auto

lemma Score_eq_iff: "Score (heap s c) = Score (heap s w) \<longleftrightarrow>
    sint (Score (heap s c)) = sint (Score (heap s w))"
  by (auto intro: signed_word_eqI)

lemma scoresOf_Cons: "scoresOf s (c # cs) = sint (Score (heap s c)) # scoresOf s cs"
  by (simp add: scoresOf_def)

lemma winnerLoop_from_Some:
  "winnerLoop cs s (Some w, d) =
     (if topScore (sint (Score (heap s w)) # scoresOf s cs) = sint (Score (heap s w))
      then (Some w, d \<or> sint (Score (heap s w)) \<in> set (scoresOf s cs))
      else (find (\<lambda>c. sint (Score (heap s c)) =
                        topScore (sint (Score (heap s w)) # scoresOf s cs)) cs,
            2 \<le> count_list (scoresOf s cs)
                   (topScore (sint (Score (heap s w)) # scoresOf s cs))))"
proof (induction cs arbitrary: w d)
  case Nil
  then show ?case by (simp add: scoresOf_def)
next
  case (Cons c cs)
  let ?m = "sint (Score (heap s w))" and ?x = "sint (Score (heap s c))"
  let ?xs = "scoresOf s cs"
  consider (gt) "?m < ?x" | (eq) "?x = ?m" | (lt) "?x < ?m" by linarith
  then show ?case
  proof cases
    case gt
    have M: "max ?m (topScore (?x # ?xs)) = topScore (?x # ?xs)"
      using topScore_ge_head [of ?x ?xs] gt by simp
    have ne: "topScore (?x # ?xs) \<noteq> ?m"
      using topScore_ge_head [of ?x ?xs] gt by simp
    show ?thesis
      using gt ne
      by (simp add: Cons.IH scoresOf_Cons M count_list_ge_2)
  next
    case eq
    show ?thesis
      using eq topScore_ge_head [of ?m ?xs]
      by (auto simp: Cons.IH scoresOf_Cons Score_eq_iff max_def)
  next
    case lt
    have M: "max ?m (topScore (?x # ?xs)) = topScore (?m # ?xs)"
      using topScore_skip_second [of ?x ?m ?xs] lt by simp
    have ne: "topScore (?m # ?xs) \<noteq> ?x"
      using topScore_ge_head [of ?m ?xs] lt by simp
    show ?thesis
      using lt ne by (auto simp: Cons.IH scoresOf_Cons M Score_eq_iff)
  qed
qed

lemma winnerLoop_outcome:
  assumes "cs \<noteq> []"
  shows "winnerLoop cs s (None, False) = (topClient s cs, topShared (scoresOf s cs))"
proof -
  from assms obtain c cs' where cs: "cs = c # cs'" by (cases cs) auto
  show ?thesis
    unfolding cs
    by (simp add: winnerLoop_from_Some topClient_def topShared_def scoresOf_Cons count_list_ge_2)
qed

lemma topScore_mem: "xs \<noteq> [] \<Longrightarrow> topScore xs \<in> set xs"
  by (induction xs rule: topScore.induct) (auto simp: max_def)

lemma topClient_Some:
  assumes "cs \<noteq> []"
  shows "\<exists>w. topClient s cs = Some w \<and> w \<in> set cs"
proof -
  have "topScore (scoresOf s cs) \<in> set (scoresOf s cs)"
    using assms by (intro topScore_mem) (simp add: scoresOf_def)
  then obtain c where c: "c \<in> set cs" "sint (Score (heap s c)) = topScore (scoresOf s cs)"
    by (auto simp: scoresOf_def)
  then have "find (\<lambda>c. sint (Score (heap s c)) = topScore (scoresOf s cs)) cs \<noteq> None"
    by (auto simp: find_None_iff)
  then obtain w where w: "topClient s cs = Some w" by (auto simp: topClient_def)
  then have "w \<in> set cs" by (auto simp: topClient_def find_Some_iff)
  with w show ?thesis by blast
qed

lemma topShared_pair: "topShared [x, y] \<longleftrightarrow> x = y"
  by (auto simp: topShared_def max_def)

subsection \<open>Identifiers never change\<close>

lemma ids_andThen:
  assumes "\<And>n. ID (heap (state_of r) n) = ID (heap s n)"
    and "\<And>u n. r = Done u \<Longrightarrow> ID (heap (state_of (f u)) n) = ID (heap u n)"
  shows "ID (heap (state_of (andThen r f)) n) = ID (heap s n)"
proof (cases r)
  case (Done u)
  with assms(1) [of n] assms(2) [OF Done, of n] show ?thesis by simp
next
  case (Panic p u)
  with assms(1) [of n] show ?thesis by simp
qed

lemma ids_cleanupLoop: "ID (heap (cleanupLoop cs s) n) = ID (heap s n)"
  by (simp add: heap_cleanupLoop)

lemma ids_handlePlayerDied:
  "ID (heap (state_of (handlePlayerDied ks1 ks2 db c m s)) n) = ID (heap s n)"
proof (cases "ScoreField m")
  case None
  then show ?thesis by (simp add: handlePlayerDied_def)
next
  case (Some x)
  let ?s1 = "upd c (\<lambda>c. c\<lparr>Score := x, IsAlive := False\<rparr>) s"
  have 2: "ID (heap (state_of
              (andThen (gameOverLoop w d cs u)
                 (\<lambda>s3. Done (cleanupLoop cs (saveLoop db 0 cs s3))))) n) = ID (heap u n)"
    for u w d cs n
    by (rule ids_andThen) (simp_all add: ids_cleanupLoop)
  have "ID (heap (state_of (handlePlayerDied ks1 ks2 db c m s)) n) = ID (heap ?s1 n)"
    using Some unfolding handlePlayerDied_def
    by (simp add: Let_def del: upd_simps) (rule ids_andThen, simp, simp add: 2 Let_def)
  then show ?thesis by simp
qed

lemma ids_handleLeaveGame:
  "ID (heap (state_of (handleLeaveGame ks1 db c s)) n) = ID (heap s n)"
proof (cases "RoomID (heap s c) = []")
  case True
  then show ?thesis by (simp add: handleLeaveGame_def)
next
  case False
  let ?s1 = "SaveScore (db 0) (ID (heap s c)) (Name (heap s c)) (Score (heap s c)) s"
  have "ID (heap (state_of (handleLeaveGame ks1 db c s)) n) = ID (heap ?s1 n)"
    using False unfolding handleLeaveGame_def
    by (simp add: Let_def del: SaveScore_simps) (rule ids_andThen, simp, simp)
  then show ?thesis by simp
qed

lemma ids_handleMessage:
  "ID (heap (state_of (handleMessage ks1 ks2 db c m s)) n) = ID (heap s n)"
proof -
  have j: "ID (heap (handleJoinQueue c m s) n) = ID (heap s n)"
    by (simp add: handleJoinQueue_def Let_def AddToQueue_def)
  have u: "ID (heap (state_of (handleUpdateScore ks1 c m s)) n) = ID (heap s n)"
    by (simp add: handleUpdateScore_def Let_def split: option.split)
  from j u show ?thesis
    by (simp add: handleMessage_def ids_handlePlayerDied ids_handleLeaveGame)
qed

lemma ids_step: "ID (heap (state_of (step e s)) n) = ID (heap s n)"
proof (cases e)
  case (Recv ks1 ks2 db c m)
  then show ?thesis by (simp add: ids_handleMessage)
next
  case (Pair rs)
  have "ID (heap (state_of (Run_iter rs s)) n) = ID (heap s n)"
  proof (cases "queue s")
    case Nil
    then show ?thesis by (simp add: Run_iter_def)
  next
    case (Cons x rest)
    show ?thesis
    proof (cases "waiting s")
      case None
      with Cons show ?thesis by (simp add: Run_iter_def Run_body_def)
    next
      case (Some w)
      have "ID (heap (state_of (andThen (createMatch rs w x (s\<lparr>queue := rest\<rparr>))
                              (\<lambda>s'. Done (s'\<lparr>waiting := None\<rparr>)))) n)
              = ID (heap (s\<lparr>queue := rest\<rparr>) n)"
        by (rule ids_andThen) simp_all
      with Cons Some show ?thesis by (simp add: Run_iter_def Run_body_def)
    qed
  qed
  with Pair show ?thesis by simp
next
  case (Reg a)
  then show ?thesis by (simp add: Register_def)
next
  case (Unreg a)
  then show ?thesis by (simp add: Unregister_def Let_def split: option.split)
next
  case (Write a)
  then show ?thesis by (simp add: WritePump_iter_def split: list.split)
qed

lemma ids_run: "ID (heap (state_of (run evs s)) n) = ID (heap s n)"
proof (induction evs arbitrary: s)
  case Nil
  then show ?case by simp
next
  case (Cons e es)
  show ?case
    using ids_step [of e s n] Cons.IH
    by (cases "step e s") simp_all
qed

section \<open>GAME_OVER payloads\<close>

lemma grows_refl [simp]: "grows A s s"
  by (simp add: grows_def)

lemma grows_buf_eq: "(\<And>c. buf (chans t c) = buf (chans s c)) \<Longrightarrow> grows A s t"
  by (simp add: grows_def)

lemma grows_trans:
  assumes "grows A s t" and "grows A t u"
  shows "grows A s u"
  unfolding grows_def
proof
  fix c
  from assms(1) obtain ms where ms: "buf (chans t c) = buf (chans s c) @ ms" "set ms \<subseteq> A c"
    unfolding grows_def by blast
  from assms(2) obtain ns where ns: "buf (chans u c) = buf (chans t c) @ ns" "set ns \<subseteq> A c"
    unfolding grows_def by blast
  from ms ns have "buf (chans u c) = buf (chans s c) @ (ms @ ns) \<and> set (ms @ ns) \<subseteq> A c"
    by simp
  then show "\<exists>ms. buf (chans u c) = buf (chans s c) @ ms \<and> set ms \<subseteq> A c" by blast
qed

lemma grows_mono: "grows A s t \<Longrightarrow> (\<And>c. A c \<subseteq> B c) \<Longrightarrow> grows B s t"
  unfolding grows_def by (meson subset_trans)

lemma grows_newMsgs: "grows A s t \<Longrightarrow> set (newMsgs c s t) \<subseteq> A c"
  unfolding grows_def newMsgs_def
proof -
  assume "\<forall>c. \<exists>ms. buf (chans t c) = buf (chans s c) @ ms \<and> set ms \<subseteq> A c"
  then obtain ms where "buf (chans t c) = buf (chans s c) @ ms" "set ms \<subseteq> A c" by blast
  then show "set (drop (length (buf (chans s c))) (buf (chans t c))) \<subseteq> A c" by simp
qed

lemma grows_andThen:
  assumes "grows A s (state_of r)" and "\<And>u. r = Done u \<Longrightarrow> grows A u (state_of (f u))"
  shows "grows A s (state_of (andThen r f))"
proof (cases r)
  case (Done u)
  with assms(1) have "grows A s u" by simp
  moreover have "grows A u (state_of (f u))" by (rule assms(2) [OF Done])
  ultimately show ?thesis using Done by (simp add: grows_trans)
next
  case (Panic p u)
  with assms(1) show ?thesis by simp
qed

lemma grows_SendJSON: "(t, p) \<in> A c \<Longrightarrow> grows A s (state_of (SendJSON c t p s))"
  by (simp add: grows_def SendJSON_def)

lemma grows_notifyLoop:
  "(\<And>c. (t, p) \<in> A c) \<Longrightarrow> grows A s (state_of (notifyLoop cl t p cs s))"
proof (induction cs arbitrary: s)
  case Nil
  then show ?case by simp
next
  case (Cons c cs)
  show ?case
  proof (cases "ID (heap s c) \<noteq> ID (heap s cl)")
    case True
    have "grows A s (state_of (andThen (SendJSON c t p s) (notifyLoop cl t p cs)))"
      by (rule grows_andThen [OF grows_SendJSON]) (simp_all add: Cons)
    with True show ?thesis by simp
  next
    case False
    then show ?thesis using Cons by simp
  qed
qed

lemma grows_notifyOpponent:
  "(\<And>c. (t, p) \<in> A c) \<Longrightarrow> grows A s (state_of (notifyOpponent ks cl t p s))"
  by (simp add: notifyOpponent_def grows_notifyLoop)

text \<open>The payload of the \<open>GAME_OVER\<close> loop: it is fixed by \<open>winner\<close> and
  \<open>isDraw\<close>, and goes to the clients of the slice only.\<close>

lemma grows_gameOverLoop:
  assumes "\<And>c. c \<in> set cs \<Longrightarrow> d \<Longrightarrow> (''GAME_OVER'', GameOverPayload [] ''draw'') \<in> A c"
    and "\<And>c x. c \<in> set cs \<Longrightarrow> \<not> d \<Longrightarrow> w = Some x \<Longrightarrow>
           (''GAME_OVER'', GameOverPayload (ids x) ''all_players_died'') \<in> A c"
    and "\<And>x. ID (heap s x) = ids x"
  shows "grows A s (state_of (gameOverLoop w d cs s))"
  using assms
proof (induction cs arbitrary: s)
  case Nil
  then show ?case by simp
next
  case (Cons c cs)
  show ?case
  proof (cases d)
    case True
    have "grows A s (state_of (andThen (SendJSON c ''GAME_OVER'' (GameOverPayload [] ''draw'') s)
                                 (gameOverLoop w d cs)))"
    proof (rule grows_andThen [OF grows_SendJSON])
      show "(''GAME_OVER'', GameOverPayload [] ''draw'') \<in> A c"
        using Cons.prems(1) True by simp
    next
      fix u assume "SendJSON c ''GAME_OVER'' (GameOverPayload [] ''draw'') s = Done u"
      then have "state_of (SendJSON c ''GAME_OVER'' (GameOverPayload [] ''draw'') s) = u" by simp
      then have h: "heap u = heap s" by auto
      show "grows A u (state_of (gameOverLoop w d cs u))"
        by (rule Cons.IH) (use Cons.prems h in auto)
    qed
    with True show ?thesis by simp
  next
    case False
    show ?thesis
    proof (cases w)
      case None
      with False show ?thesis by simp
    next
      case (Some x)
      have "grows A s (state_of (andThen
               (SendJSON c ''GAME_OVER'' (GameOverPayload (ID (heap s x)) ''all_players_died'') s)
               (gameOverLoop w d cs)))"
      proof (rule grows_andThen [OF grows_SendJSON])
        show "(''GAME_OVER'', GameOverPayload (ID (heap s x)) ''all_players_died'') \<in> A c"
          using Cons.prems(2) [of c x] Cons.prems(3) False Some by simp
      next
        fix u
        assume "SendJSON c ''GAME_OVER'' (GameOverPayload (ID (heap s x)) ''all_players_died'') s
                  = Done u"
        then have "state_of (SendJSON c ''GAME_OVER''
                     (GameOverPayload (ID (heap s x)) ''all_players_died'') s) = u"
          by simp
        then have h: "heap u = heap s" by auto
        show "grows A u (state_of (gameOverLoop w d cs u))"
          by (rule Cons.IH) (use Cons.prems h in auto)
      qed
      with False Some show ?thesis by simp
    qed
  qed
qed

lemma winnerLoop_cong: "heap u = heap s \<Longrightarrow> winnerLoop cs u acc = winnerLoop cs s acc"
  by (induction cs s acc rule: winnerLoop.induct) simp_all

lemma allDeadLoop_cong: "heap u = heap s \<Longrightarrow> allDeadLoop cs u = allDeadLoop cs s"
  by (induction cs) simp_all

text \<open>
  The messages a \<open>PLAYER_DIED\<close> buffers: the \<open>OPPONENT_UPDATE\<close> of the death and,
  when everyone in the room (\<open>L\<close>, with the death recorded in \<open>s1\<close>) is dead,
  for the clients of the room the \<open>GAME_OVER\<close> that the scores determine.
\<close>

lemma handlePlayerDied_grows:
  assumes m: "ScoreField msg = Some x"
    and s1: "s1 = upd cl (\<lambda>c. c\<lparr>Score := x, IsAlive := False\<rparr>) s"
    and L: "L = GetClientsInRoom ks2 (RoomID (heap s cl)) s1"
    and A: "\<And>c. A c =
             {m. fst m = ''OPPONENT_UPDATE''} \<union>
             (if c \<in> set L \<and> allDeadLoop L s1
              then {(''GAME_OVER'',
                     if topShared (scoresOf s1 L) then GameOverPayload [] ''draw''
                     else GameOverPayload
                            (case topClient s1 L of None \<Rightarrow> [] | Some w \<Rightarrow> ID (heap s w))
                            ''all_players_died'')}
              else {})"
  shows "grows A s (state_of (handlePlayerDied ks1 ks2 db cl msg s))"
proof -
  let ?n = "notifyOpponent ks1 cl ''OPPONENT_UPDATE''
              (OpponentUpdatePayload (Score (heap s1 cl)) False) s1"
  have h: "handlePlayerDied ks1 ks2 db cl msg s =
             andThen ?n
               (\<lambda>s2. let roomClients = GetClientsInRoom ks2 (RoomID (heap s2 cl)) s2
                  in if allDeadLoop roomClients s2 then
                       let wd = winnerLoop roomClients s2 (None, False)
                       in andThen (gameOverLoop (fst wd) (snd wd) roomClients s2)
                            (\<lambda>s3. Done (cleanupLoop roomClients (saveLoop db 0 roomClients s3)))
                     else Done s2)"
    using m unfolding handlePlayerDied_def s1 by (simp add: Let_def)
  have 0: "grows A s s1" by (rule grows_buf_eq) (simp add: s1)
  have 1: "grows A s1 (state_of ?n)"
    by (rule grows_notifyOpponent) (simp add: A)
  have 2: "grows A u (state_of
              (let roomClients = GetClientsInRoom ks2 (RoomID (heap u cl)) u
                  in if allDeadLoop roomClients u then
                       let wd = winnerLoop roomClients u (None, False)
                       in andThen (gameOverLoop (fst wd) (snd wd) roomClients u)
                            (\<lambda>s3. Done (cleanupLoop roomClients (saveLoop db 0 roomClients s3)))
                     else Done u))"
    if u: "?n = Done u" for u
  proof -
    from u have "state_of ?n = u" by simp
    then have hu: "heap u = heap s1" and cu: "clients u = clients s1" by auto
    have Lu: "GetClientsInRoom ks2 (RoomID (heap u cl)) u = L"
      unfolding L using GetClientsInRoom_cong [OF hu cu] hu by (simp add: s1)
    have ad: "allDeadLoop L u = allDeadLoop L s1" by (rule allDeadLoop_cong [OF hu])
    have wl: "winnerLoop L u (None, False) = winnerLoop L s1 (None, False)"
      by (rule winnerLoop_cong [OF hu])
    show ?thesis
    proof (cases "allDeadLoop L s1")
      case False
      then show ?thesis by (simp add: Lu ad)
    next
      case True
      have ids: "ID (heap u n) = ID (heap s n)" for n
        unfolding hu by (simp add: s1)
      have g: "grows A u (state_of (gameOverLoop (fst (winnerLoop L s1 (None, False)))
                                      (snd (winnerLoop L s1 (None, False))) L u))"
      proof (rule grows_gameOverLoop [where ids = "\<lambda>n. ID (heap s n)"])
        fix c assume c: "c \<in> set L" and d: "snd (winnerLoop L s1 (None, False))"
        from c have "L \<noteq> []" by auto
        with d have "topShared (scoresOf s1 L)" by (simp add: winnerLoop_outcome)
        with c True show "(''GAME_OVER'', GameOverPayload [] ''draw'') \<in> A c"
          by (simp add: A)
      next
        fix c w assume c: "c \<in> set L" and d: "\<not> snd (winnerLoop L s1 (None, False))"
          and w: "fst (winnerLoop L s1 (None, False)) = Some w"
        from c have "L \<noteq> []" by auto
        with d w have "\<not> topShared (scoresOf s1 L)" "topClient s1 L = Some w"
          by (simp_all add: winnerLoop_outcome)
        with c True show "(''GAME_OVER'', GameOverPayload (ID (heap s w)) ''all_players_died'') \<in> A c"
          by (simp add: A)
      next
        show "ID (heap u n) = ID (heap s n)" for n by (rule ids)
      qed
      have "grows A u (state_of
              (andThen (gameOverLoop (fst (winnerLoop L s1 (None, False)))
                          (snd (winnerLoop L s1 (None, False))) L u)
                 (\<lambda>s3. Done (cleanupLoop L (saveLoop db 0 L s3)))))"
        by (rule grows_andThen [OF g]) (simp add: grows_buf_eq)
      with True show ?thesis by (simp add: Lu ad wl Let_def)
    qed
  qed
  have "grows A s1 (state_of (handlePlayerDied ks1 ks2 db cl msg s))"
    unfolding h by (rule grows_andThen [OF 1 2])
  with 0 show ?thesis by (rule grows_trans)
qed

lemma no_gameOvers:
  assumes "grows (\<lambda>c. {m. fst m \<noteq> ''GAME_OVER''}) s t"
  shows "gameOvers (newMsgs c s t) = []"
  using grows_newMsgs [OF assms, of c] by (auto simp: gameOvers_def filter_empty_conv)

lemma createMatch_grows:
  "grows (\<lambda>c. {m. fst m \<noteq> ''GAME_OVER''}) s (state_of (createMatch rs a b s))"
proof -
  have 0: "grows (\<lambda>c. {m. fst m \<noteq> ''GAME_OVER''}) s
             (assignRoom (fst rs) b (assignRoom (fst rs) a s))"
    by (rule grows_buf_eq) simp
  have 1: "grows (\<lambda>c. {m. fst m \<noteq> ''GAME_OVER''})
             (assignRoom (fst rs) b (assignRoom (fst rs) a s))
             (state_of (createMatch rs a b s))"
    unfolding createMatch_def Let_def
    by (rule grows_andThen; rule grows_SendJSON; simp)
  from 0 1 show ?thesis by (rule grows_trans)
qed

lemma other_events_grow:
  assumes "\<And>ks1 ks2 db cl msg. e = Recv ks1 ks2 db cl msg \<Longrightarrow> Type msg \<noteq> ''PLAYER_DIED''"
  shows "gameOvers (newMsgs c s (state_of (step e s))) = []"
proof (cases e)
  case (Recv ks1 ks2 db cl msg)
  with assms have nd: "Type msg \<noteq> ''PLAYER_DIED''" by simp
  have "grows (\<lambda>c. {m. fst m \<noteq> ''GAME_OVER''}) s (state_of (handleMessage ks1 ks2 db cl msg s))"
  proof -
    have j: "grows A s (handleJoinQueue cl msg s)" for A
      by (rule grows_buf_eq) (simp add: handleJoinQueue_def Let_def AddToQueue_def)
    have u: "grows (\<lambda>c. {m. fst m \<noteq> ''GAME_OVER''}) s (state_of (handleUpdateScore ks1 cl msg s))"
    proof (cases "ScoreField msg")
      case None
      then show ?thesis by (simp add: handleUpdateScore_def)
    next
      case (Some x)
      have "grows (\<lambda>c. {m. fst m \<noteq> ''GAME_OVER''}) s
              (state_of (notifyOpponent ks1 cl ''OPPONENT_UPDATE'' p
                 (upd cl (\<lambda>c. c\<lparr>Score := x\<rparr>) s)))" for p
        by (rule grows_trans [of _ _ "upd cl (\<lambda>c. c\<lparr>Score := x\<rparr>) s"])
           (simp_all add: grows_buf_eq grows_notifyOpponent)
      with Some show ?thesis
        by (simp add: handleUpdateScore_def Let_def grows_notifyOpponent)
    qed
    have l: "grows (\<lambda>c. {m. fst m \<noteq> ''GAME_OVER''}) s (state_of (handleLeaveGame ks1 db cl s))"
    proof (cases "RoomID (heap s cl) = []")
      case True
      then show ?thesis by (simp add: handleLeaveGame_def)
    next
      case False
      let ?s1 = "SaveScore (db 0) (ID (heap s cl)) (Name (heap s cl)) (Score (heap s cl)) s"
      have 0: "grows (\<lambda>c. {m. fst m \<noteq> ''GAME_OVER''}) s ?s1"
        by (rule grows_buf_eq) simp
      have 1: "grows (\<lambda>c. {m. fst m \<noteq> ''GAME_OVER''}) ?s1 (state_of (handleLeaveGame ks1 db cl s))"
        using False unfolding handleLeaveGame_def
        by (simp add: Let_def del: SaveScore_simps)
           (rule grows_andThen, rule grows_notifyOpponent, simp, simp add: grows_buf_eq)
      from 0 1 show ?thesis by (rule grows_trans)
    qed
    from nd j u l show ?thesis by (simp add: handleMessage_def)
  qed
  then show ?thesis using Recv by (simp add: no_gameOvers)
next
  case (Pair rs)
  have "grows (\<lambda>c. {m. fst m \<noteq> ''GAME_OVER''}) s (state_of (Run_iter rs s))"
  proof (cases "queue s")
    case Nil
    then show ?thesis by (simp add: Run_iter_def)
  next
    case (Cons x rest)
    show ?thesis
    proof (cases "waiting s")
      case None
      with Cons show ?thesis by (simp add: Run_iter_def Run_body_def grows_buf_eq)
    next
      case (Some w)
      have 0: "grows (\<lambda>c. {m. fst m \<noteq> ''GAME_OVER''}) s (s\<lparr>queue := rest\<rparr>)"
        by (rule grows_buf_eq) simp
      have 1: "grows (\<lambda>c. {m. fst m \<noteq> ''GAME_OVER''}) (s\<lparr>queue := rest\<rparr>)
                 (state_of (andThen (createMatch rs w x (s\<lparr>queue := rest\<rparr>))
                              (\<lambda>s'. Done (s'\<lparr>waiting := None\<rparr>))))"
        by (rule grows_andThen [OF createMatch_grows]) (simp add: grows_buf_eq)
      from grows_trans [OF 0 1] Cons Some show ?thesis
        by (simp add: Run_iter_def Run_body_def)
    qed
  qed
  then show ?thesis using Pair by (simp add: no_gameOvers)
next
  case (Reg a)
  then show ?thesis by (simp add: no_gameOvers grows_buf_eq Register_def)
next
  case (Unreg a)
  have "grows (\<lambda>c. {m. fst m \<noteq> ''GAME_OVER''}) s (state_of (Unregister a s))"
    by (rule grows_buf_eq) (simp add: Unregister_def Let_def split: option.split)
  then show ?thesis using Unreg by (simp add: no_gameOvers)
next
  case (Write a)
  then show ?thesis
    by (simp add: newMsgs_def gameOvers_def WritePump_iter_def split: list.split)
qed

text \<open>
  A resolution on which C6 as worded fails. With two equal scores the handler buffers for both participants a \<open>GAME_OVER\<close>
  whose reason is \<open>draw\<close>, which is neither \<open>all_players_died\<close> nor
  \<open>disconnect\<close>.
\<close>

theorem reason_draw_counterexample:
  "map (\<lambda>c. gameOvers (buf (chans (state_of
         (run [Recv [''guest_a'', ''guest_b''] [''guest_a'', ''guest_b''] dbUp 0 (died 40),
               Recv [''guest_a'', ''guest_b''] [''guest_a'', ''guest_b''] dbUp 1 (died 40)]
            inRoom)) c))) [0, 1]
     = [[(''GAME_OVER'', GameOverPayload [] ''draw'')],
        [(''GAME_OVER'', GameOverPayload [] ''draw'')]]
   \<and> ''draw'' \<notin> {''all_players_died'', ''disconnect''}"
  by code_simp

text \<open>
  C6, as amended. \<open>ServeWs\<close> gives every connection an identifier that starts with
  \<open>guest_\<close>, and no event changes an identifier (\<open>ids_run\<close>), so identifiers
  are not empty in any state the server reaches. In any such state \<open>s\<close>, let any
  event happen and let \<open>m\<close> be a \<open>GAME_OVER\<close> message it has put into the send
  buffer of a connection \<open>c\<close>. Then the event is a \<open>PLAYER_DIED\<close> handled for some
  connection \<open>cl\<close> with a reported score \<open>x\<close>; with the death recorded
  (\<open>s1\<close>), every client of the room of \<open>cl\<close> (the slice \<open>L\<close>, which holds
  \<open>c\<close>) is dead; and the payload is fixed by the scores of the room: when the top
  score is shared (a draw) \<open>winnerId\<close> is empty and the reason is \<open>draw\<close>,
  otherwise \<open>winnerId\<close> is the identifier of the first client of the slice with the
  top score, which is not empty, and the reason is \<open>all_players_died\<close>. So
  \<open>winnerId\<close> is empty exactly when the outcome is a draw, and the reason is an
  element of \<open>{all_players_died, disconnect, draw}\<close>.
\<close>

theorem game_over_payloads:
  assumes "\<forall>n. ID (heap s n) \<noteq> []"
    and "m \<in> set (gameOvers (newMsgs c s (state_of (step e s))))"
  shows "\<exists>ks1 ks2 db cl msg x s1 L W R.
           e = Recv ks1 ks2 db cl msg \<and> Type msg = ''PLAYER_DIED'' \<and> ScoreField msg = Some x
         \<and> s1 = upd cl (\<lambda>c. c\<lparr>Score := x, IsAlive := False\<rparr>) s
         \<and> L = GetClientsInRoom ks2 (RoomID (heap s cl)) s1
         \<and> c \<in> set L \<and> allDeadLoop L s1
         \<and> m = (''GAME_OVER'', GameOverPayload W R)
         \<and> (W = [] \<longleftrightarrow> topShared (scoresOf s1 L))
         \<and> (topShared (scoresOf s1 L) \<longrightarrow> R = ''draw'')
         \<and> (\<not> topShared (scoresOf s1 L) \<longrightarrow>
              R = ''all_players_died'' \<and> (\<exists>w. topClient s1 L = Some w \<and> W = ID (heap s w)))
         \<and> R \<in> {''all_players_died'', ''disconnect'', ''draw''}"
proof -
  from assms(2) have "gameOvers (newMsgs c s (state_of (step e s))) \<noteq> []" by auto
  with other_events_grow [of e c s] obtain ks1 ks2 db cl msg where
    e: "e = Recv ks1 ks2 db cl msg" and t: "Type msg = ''PLAYER_DIED''"
    by blast
  have st: "state_of (step e s) = state_of (handlePlayerDied ks1 ks2 db cl msg s)"
    unfolding e using t by (simp add: handleMessage_def)
  show ?thesis
  proof (cases "ScoreField msg")
    case None
    then have "state_of (step e s) = s" unfolding st by (simp add: handlePlayerDied_def)
    with assms(2) show ?thesis by (simp add: newMsgs_def gameOvers_def)
  next
    case (Some x)
    define s1 where "s1 = upd cl (\<lambda>c. c\<lparr>Score := x, IsAlive := False\<rparr>) s"
    define L where "L = GetClientsInRoom ks2 (RoomID (heap s cl)) s1"
    define A where "A = (\<lambda>c. {m. fst m = ''OPPONENT_UPDATE''} \<union>
             (if c \<in> set L \<and> allDeadLoop L s1
              then {(''GAME_OVER'',
                     if topShared (scoresOf s1 L) then GameOverPayload [] ''draw''
                     else GameOverPayload
                            (case topClient s1 L of None \<Rightarrow> [] | Some w \<Rightarrow> ID (heap s w))
                            ''all_players_died'')}
              else {}))"
    have "grows A s (state_of (handlePlayerDied ks1 ks2 db cl msg s))"
      by (rule handlePlayerDied_grows [OF Some s1_def L_def]) (simp add: A_def)
    from grows_newMsgs [OF this, of c] assms(2) have mA: "m \<in> A c" and g: "fst m = ''GAME_OVER''"
      unfolding st by (auto simp: gameOvers_def)
    from mA g have cL: "c \<in> set L" and ad: "allDeadLoop L s1"
      and m: "m = (''GAME_OVER'',
                     if topShared (scoresOf s1 L) then GameOverPayload [] ''draw''
                     else GameOverPayload
                            (case topClient s1 L of None \<Rightarrow> [] | Some w \<Rightarrow> ID (heap s w))
                            ''all_players_died'')"
      by (auto simp: A_def split: if_splits)
    from cL have "L \<noteq> []" by auto
    from topClient_Some [OF this, of s1] obtain w where w: "topClient s1 L = Some w" by blast
    have idw: "ID (heap s w) \<noteq> []" using assms(1) by simp
    show ?thesis
    proof (cases "topShared (scoresOf s1 L)")
      case True
      with m have "m = (''GAME_OVER'', GameOverPayload [] ''draw'')" by simp
      with e t Some s1_def L_def cL ad True show ?thesis by auto
    next
      case False
      with m w have "m = (''GAME_OVER'', GameOverPayload (ID (heap s w)) ''all_players_died'')"
        by simp
      with e t Some s1_def L_def cL ad False w idw show ?thesis by auto
    qed
  qed
qed

theorem game_over_payloads_witness:
  "(\<forall>n. ID (heap (upd 0 (\<lambda>c. c\<lparr>Score := 40, IsAlive := False\<rparr>) inRoom) n) \<noteq> [])
   \<and> (''GAME_OVER'', GameOverPayload [] ''draw'')
       \<in> set (gameOvers (newMsgs 0 (upd 0 (\<lambda>c. c\<lparr>Score := 40, IsAlive := False\<rparr>) inRoom)
           (state_of (step (Recv [''guest_a'', ''guest_b''] [''guest_a'', ''guest_b''] dbUp 1 (died 40))
              (upd 0 (\<lambda>c. c\<lparr>Score := 40, IsAlive := False\<rparr>) inRoom)))))
   \<and> topShared (scoresOf
        (upd 1 (\<lambda>c. c\<lparr>Score := 40, IsAlive := False\<rparr>)
           (upd 0 (\<lambda>c. c\<lparr>Score := 40, IsAlive := False\<rparr>) inRoom))
        (GetClientsInRoom [''guest_a'', ''guest_b'']
           (RoomID (heap (upd 0 (\<lambda>c. c\<lparr>Score := 40, IsAlive := False\<rparr>) inRoom) 1))
           (upd 1 (\<lambda>c. c\<lparr>Score := 40, IsAlive := False\<rparr>)
              (upd 0 (\<lambda>c. c\<lparr>Score := 40, IsAlive := False\<rparr>) inRoom))))"
proof -
  have ids: "\<forall>n. ID (heap (upd 0 (\<lambda>c. c\<lparr>Score := 40, IsAlive := False\<rparr>) inRoom) n) \<noteq> []"
    by (simp add: inRoom_def mkClient_def)
  have mem: "(''GAME_OVER'', GameOverPayload [] ''draw'')
       \<in> set (gameOvers (newMsgs 0 (upd 0 (\<lambda>c. c\<lparr>Score := 40, IsAlive := False\<rparr>) inRoom)
           (state_of (step (Recv [''guest_a'', ''guest_b''] [''guest_a'', ''guest_b''] dbUp 1 (died 40))
              (upd 0 (\<lambda>c. c\<lparr>Score := 40, IsAlive := False\<rparr>) inRoom)))))"
    by code_simp
  from game_over_payloads [OF ids mem]
  have "topShared (scoresOf
        (upd 1 (\<lambda>c. c\<lparr>Score := 40, IsAlive := False\<rparr>)
           (upd 0 (\<lambda>c. c\<lparr>Score := 40, IsAlive := False\<rparr>) inRoom))
        (GetClientsInRoom [''guest_a'', ''guest_b'']
           (RoomID (heap (upd 0 (\<lambda>c. c\<lparr>Score := 40, IsAlive := False\<rparr>) inRoom) 1))
           (upd 1 (\<lambda>c. c\<lparr>Score := 40, IsAlive := False\<rparr>)
              (upd 0 (\<lambda>c. c\<lparr>Score := 40, IsAlive := False\<rparr>) inRoom))))"
    by (auto simp: died_def)
  with ids mem show ?thesis by blast
qed

section \<open>The spec's end-to-end example\<close>

text \<open>
  \<open>guest_a\<close> and \<open>guest_b\<close> join the queue in this order under the names A and
  B and are matched into room \<open>r1\<close> with seed 7 by two iterations of the matchmaker's
  loop; \<open>guest_a\<close> reports 40 (accepted), then 200 (rejected, the opponent is re-sent
  40), then dies at 40; \<open>guest_b\<close> dies at 40: a draw, buffered for both; the write
  pump of \<open>guest_a\<close> then writes its three messages to the socket.
\<close>

lemma end_to_end_example:
  "panic_of (run [Recv [''guest_a'', ''guest_b''] [''guest_a'', ''guest_b''] dbUp 0 (joinQueue ''A''),
              Recv [''guest_a'', ''guest_b''] [''guest_a'', ''guest_b''] dbUp 1 (joinQueue ''B''),
              Pair (''r1'', 7), Pair (''r1'', 7),
              Recv [''guest_a'', ''guest_b''] [''guest_a'', ''guest_b''] dbUp 0 (updateScore 40),
              Recv [''guest_a'', ''guest_b''] [''guest_a'', ''guest_b''] dbUp 0 (updateScore 200),
              Recv [''guest_a'', ''guest_b''] [''guest_a'', ''guest_b''] dbUp 0 (died 40),
              Recv [''guest_a'', ''guest_b''] [''guest_a'', ''guest_b''] dbUp 1 (died 40),
              Write 0, Write 0, Write 0] inLobby) = None
   \<and> written (state_of (run [Recv [''guest_a'', ''guest_b''] [''guest_a'', ''guest_b''] dbUp 0 (joinQueue ''A''),
              Recv [''guest_a'', ''guest_b''] [''guest_a'', ''guest_b''] dbUp 1 (joinQueue ''B''),
              Pair (''r1'', 7), Pair (''r1'', 7),
              Recv [''guest_a'', ''guest_b''] [''guest_a'', ''guest_b''] dbUp 0 (updateScore 40),
              Recv [''guest_a'', ''guest_b''] [''guest_a'', ''guest_b''] dbUp 0 (updateScore 200),
              Recv [''guest_a'', ''guest_b''] [''guest_a'', ''guest_b''] dbUp 0 (died 40),
              Recv [''guest_a'', ''guest_b''] [''guest_a'', ''guest_b''] dbUp 1 (died 40),
              Write 0, Write 0, Write 0] inLobby))
     = [(0, ''GAME_START'', GameStartPayload ''r1'' 7 ''guest_a'' ''A'' ''guest_b'' ''B''),
        (0, ''OPPONENT_UPDATE'', OpponentUpdatePayload 40 False),
        (0, ''GAME_OVER'', GameOverPayload [] ''draw'')]
   \<and> buf (chans (state_of (run [Recv [''guest_a'', ''guest_b''] [''guest_a'', ''guest_b''] dbUp 0 (joinQueue ''A''),
              Recv [''guest_a'', ''guest_b''] [''guest_a'', ''guest_b''] dbUp 1 (joinQueue ''B''),
              Pair (''r1'', 7), Pair (''r1'', 7),
              Recv [''guest_a'', ''guest_b''] [''guest_a'', ''guest_b''] dbUp 0 (updateScore 40),
              Recv [''guest_a'', ''guest_b''] [''guest_a'', ''guest_b''] dbUp 0 (updateScore 200),
              Recv [''guest_a'', ''guest_b''] [''guest_a'', ''guest_b''] dbUp 0 (died 40),
              Recv [''guest_a'', ''guest_b''] [''guest_a'', ''guest_b''] dbUp 1 (died 40),
              Write 0, Write 0, Write 0] inLobby)) 1)
     = [(''GAME_START'', GameStartPayload ''r1'' 7 ''guest_b'' ''B'' ''guest_a'' ''A''),
        (''OPPONENT_UPDATE'', OpponentUpdatePayload 40 True),
        (''OPPONENT_UPDATE'', OpponentUpdatePayload 40 True),
        (''OPPONENT_UPDATE'', OpponentUpdatePayload 40 False),
        (''GAME_OVER'', GameOverPayload [] ''draw'')]
   \<and> saved (state_of (run [Recv [''guest_a'', ''guest_b''] [''guest_a'', ''guest_b''] dbUp 0 (joinQueue ''A''),
              Recv [''guest_a'', ''guest_b''] [''guest_a'', ''guest_b''] dbUp 1 (joinQueue ''B''),
              Pair (''r1'', 7), Pair (''r1'', 7),
              Recv [''guest_a'', ''guest_b''] [''guest_a'', ''guest_b''] dbUp 0 (updateScore 40),
              Recv [''guest_a'', ''guest_b''] [''guest_a'', ''guest_b''] dbUp 0 (updateScore 200),
              Recv [''guest_a'', ''guest_b''] [''guest_a'', ''guest_b''] dbUp 0 (died 40),
              Recv [''guest_a'', ''guest_b''] [''guest_a'', ''guest_b''] dbUp 1 (died 40),
              Write 0, Write 0, Write 0] inLobby))
     = [(''guest_a'', ''A'', 40), (''guest_b'', ''B'', 40)]"
  by code_simp


end
